theory Spec2Isabelle
  imports Complex_Main
begin

section \<open>JSON values as the server sees them\<close>

text \<open>
  The server keeps its whole state as the value \<^verbatim>\<open>json.load\<close> returns and takes every
  request body as the value of \<^verbatim>\<open>request.json\<close>. Both are plain Python data: \<^verbatim>\<open>None\<close>,
  booleans, integers, floats, strings, lists and dictionaries with string keys. A
  dictionary is a key/value list read through \<open>map_of\<close>, in insertion order.

  A float is \<^verbatim>\<open>nan\<close>, an infinity (\<open>FInf True\<close> is the positive one), the negative zero, or
  a finite number, given as the real number it stands for (\<open>FNum 0\<close> is the positive
  zero). Python's \<^verbatim>\<open>json\<close> reads the literals \<^verbatim>\<open>NaN\<close>, \<^verbatim>\<open>Infinity\<close> and \<^verbatim>\<open>-Infinity\<close> and
  writes them back.
\<close>

datatype pyfloat = FNan | FInf bool | FNegZero | FNum real

datatype json =
    JNull
  | JBool bool
  | JInt int
  | JFloat pyfloat
  | JStr string
  | JList "json list"
  | JObj "(string \<times> json) list"

datatype error = KeyError string | TypeError | AttributeError

text \<open>Sequencing of steps that may raise: the first exception ends the request.\<close>

definition bind_err :: "error + 'a \<Rightarrow> ('a \<Rightarrow> error + 'b) \<Rightarrow> error + 'b" where
  "bind_err m f = (case m of Inl e \<Rightarrow> Inl e | Inr v \<Rightarrow> f v)"

text \<open>
  Python's \<^verbatim>\<open>==\<close> on these values. Booleans, integers and floats are compared as
  numbers: \<^verbatim>\<open>True == 1 == 1.0\<close> and \<^verbatim>\<open>False == 0 == 0.0 == -0.0\<close> hold, and \<^verbatim>\<open>nan\<close> equals
  nothing, itself included. \<open>num_of\<close> is the number a value is compared as.

  Lists are compared element by element, dictionaries by key set and by value under
  each key. Inside a list or a dictionary two elements are taken as equal when they
  are the same object, before \<^verbatim>\<open>==\<close> is asked. Every \<^verbatim>\<open>nan\<close> the server holds is the one
  object \<^verbatim>\<open>json.decoder.NaN\<close> that the parser returns for the literal, so \<^verbatim>\<open>[nan] == [nan]\<close>
  holds although \<^verbatim>\<open>nan == nan\<close> does not; for every other value being the same object
  implies being equal.
\<close>

fun num_of :: "json \<Rightarrow> pyfloat option" where
  "num_of (JBool b) = Some (FNum (if b then 1 else 0))"
| "num_of (JInt i) = Some (FNum (of_int i))"
| "num_of (JFloat FNan) = None"
| "num_of (JFloat FNegZero) = Some (FNum 0)"
| "num_of (JFloat (FInf s)) = Some (FInf s)"
| "num_of (JFloat (FNum r)) = Some (FNum r)"
| "num_of _ = None"

function py_eq :: "json \<Rightarrow> json \<Rightarrow> bool" where
  "py_eq JNull y = (y = JNull)"
| "py_eq (JBool a) y = (num_of y = Some (FNum (if a then 1 else 0)))"
| "py_eq (JInt a) y = (num_of y = Some (FNum (of_int a)))"
| "py_eq (JFloat f) y =
     (case num_of (JFloat f) of None \<Rightarrow> False | Some n \<Rightarrow> num_of y = Some n)"
| "py_eq (JStr a) y = (y = JStr a)"
| "py_eq (JList xs) y = (case y of
       JList ys \<Rightarrow>
         list_all2 (\<lambda>a b. (a = JFloat FNan \<and> b = JFloat FNan) \<or> py_eq a b) xs ys
     | _ \<Rightarrow> False)"
| "py_eq (JObj xs) y = (case y of
       JObj ys \<Rightarrow> set (map fst xs) = set (map fst ys) \<and>
         (\<forall>k \<in> set (map fst xs).
            case map_of xs k of None \<Rightarrow> False
            | Some v \<Rightarrow> (case map_of ys k of None \<Rightarrow> False
                | Some w \<Rightarrow> (v = JFloat FNan \<and> w = JFloat FNan) \<or> py_eq v w))
     | _ \<Rightarrow> False)"
  by pat_completeness auto
termination
proof (relation "measure (\<lambda>(x, y). size x)")
  show "wf (measure (\<lambda>(x, y). size x))" by simp
next
  fix xs :: "json list" and y ys :: json and a b :: json
  assume "a \<in> set xs"
  then show "((a, b), JList xs, y) \<in> measure (\<lambda>(x, y). size x)"
    by (induction xs) auto
next
  fix xs :: "(string \<times> json) list" and y :: json and k v and w :: json
  assume "map_of xs k = Some v"
  then have "size v < Suc (size_list (size_prod (\<lambda>_. 0) size) xs)"
    by (induction xs) (auto split: if_splits)
  then show "((v, w), JObj xs, y) \<in> measure (\<lambda>(x, y). size x)"
    by simp
qed

text \<open>Truth value of a JSON value in an \<^verbatim>\<open>if\<close>.\<close>

fun truthy :: "json \<Rightarrow> bool" where
  "truthy JNull = False"
| "truthy (JBool b) = b"
| "truthy (JInt i) = (i \<noteq> 0)"
| "truthy (JFloat f) = (f \<noteq> FNum 0 \<and> f \<noteq> FNegZero)"
| "truthy (JStr s) = (s \<noteq> [])"
| "truthy (JList xs) = (xs \<noteq> [])"
| "truthy (JObj kvs) = (kvs \<noteq> [])"

text \<open>\<^verbatim>\<open>x[k]\<close> with a string key: a dictionary without the key raises \<^verbatim>\<open>KeyError\<close>, every
  other value raises \<^verbatim>\<open>TypeError\<close>.\<close>

fun getitem :: "json \<Rightarrow> string \<Rightarrow> error + json" where
  "getitem (JObj kvs) k = (case map_of kvs k of None \<Rightarrow> Inl (KeyError k) | Some v \<Rightarrow> Inr v)"
| "getitem _ k = Inl TypeError"

text \<open>\<^verbatim>\<open>x.get(k, default)\<close>: only dictionaries have the method.\<close>

fun py_get :: "json \<Rightarrow> string \<Rightarrow> json \<Rightarrow> error + json" where
  "py_get (JObj kvs) k dflt = Inr (case map_of kvs k of None \<Rightarrow> dflt | Some v \<Rightarrow> v)"
| "py_get _ k dflt = Inl AttributeError"

text \<open>\<^verbatim>\<open>x[k] = v\<close>: an existing key keeps its place, a new key goes last.\<close>

fun assign :: "(string \<times> json) list \<Rightarrow> string \<Rightarrow> json \<Rightarrow> (string \<times> json) list" where
  "assign [] k v = [(k, v)]"
| "assign ((k', v') # kvs) k v = (if k' = k then (k, v) # kvs else (k', v') # assign kvs k v)"

fun setitem :: "json \<Rightarrow> string \<Rightarrow> json \<Rightarrow> error + json" where
  "setitem (JObj kvs) k v = Inr (JObj (assign kvs k v))"
| "setitem _ k v = Inl TypeError"

text \<open>\<^verbatim>\<open>k in x\<close> for a dictionary \<open>x\<close>. The one use in the server comes after \<^verbatim>\<open>x['type']\<close>
  has been read, so \<open>x\<close> is a dictionary there.\<close>

fun has_key :: "json \<Rightarrow> string \<Rightarrow> bool" where
  "has_key (JObj kvs) k = (map_of kvs k \<noteq> None)"
| "has_key _ k = False"

text \<open>\<^verbatim>\<open>isinstance(x, dict)\<close>.\<close>

fun is_dict :: "json \<Rightarrow> bool" where
  "is_dict (JObj kvs) = True"
| "is_dict _ = False"

section \<open>The document\<close>

text \<open>
  The file \<^verbatim>\<open>db.json\<close> is created by \<^verbatim>\<open>read_data\<close> and rewritten only by the endpoints
  below, which keep its three top-level keys and the three keys of \<^verbatim>\<open>currentWeek\<close>.
  The entries of the lists are JSON values: the endpoints build them from request
  payloads, or store a payload as it came.
\<close>

record week =
  prize :: json
  assignedChores :: "json list"
  completedLog :: "json list"

record document =
  users :: "json list"
  masterChores :: "json list"
  currentWeek :: week

definition default_data :: document where
  "default_data =
     \<lparr> users =
         [JObj [(''id'', JInt 1), (''name'', JStr ''Alex'')],
          JObj [(''id'', JInt 2), (''name'', JStr ''Jordan'')]],
       masterChores =
         [JObj [(''id'', JInt 1), (''name'', JStr ''Washed a dish''),
                (''points'', JInt 5), (''type'', JStr ''repeatable'')],
          JObj [(''id'', JInt 2), (''name'', JStr ''Cleaned cat litter''),
                (''points'', JInt 20), (''type'', JStr ''repeatable'')]],
       currentWeek =
         \<lparr> prize = JStr ''Winner picks dinner!'',
           assignedChores = [],
           completedLog = [] \<rparr> \<rparr>"

text \<open>\<^verbatim>\<open>read_data\<close>: the stored document, or the default one when there is no file yet.\<close>

definition read_data :: "document option \<Rightarrow> document" where
  "read_data file = (case file of None \<Rightarrow> default_data | Some d \<Rightarrow> d)"

section \<open>The endpoints\<close>

text \<open>
  Each endpoint reads the document, changes it and, unless an exception was raised on
  the way, writes it back and returns it. An endpoint is a function from the document
  read and the payload to the document written, or to the exception.
\<close>

subsection \<open>\<^verbatim>\<open>log_chore\<close>\<close>

definition log_chore :: "document \<Rightarrow> json \<Rightarrow> error + document" where
  "log_chore data payload =
     Inr (data\<lparr>currentWeek :=
            (currentWeek data)\<lparr>completedLog := completedLog (currentWeek data) @ [payload]\<rparr>\<rparr>)"

subsection \<open>\<^verbatim>\<open>update_weekly_chore\<close>\<close>

text \<open>The test \<^verbatim>\<open>e['choreId'] == payload['choreId'] and e['userId'] == payload['userId']\<close>,
  which the endpoint writes three times. Operands are read left to right and \<^verbatim>\<open>and\<close> does
  not read its right side when the left side is false.\<close>

definition same_pair :: "json \<Rightarrow> json \<Rightarrow> error + bool" where
  "same_pair e payload =
     bind_err (getitem e ''choreId'') (\<lambda>c.
     bind_err (getitem payload ''choreId'') (\<lambda>pc.
       if py_eq c pc
       then bind_err (getitem e ''userId'') (\<lambda>u.
            bind_err (getitem payload ''userId'') (\<lambda>pu.
              Inr (py_eq u pu)))
       else Inr False))"

text \<open>The \<^verbatim>\<open>for\<close> loop over the assigned chores, left at the first hit by \<^verbatim>\<open>break\<close>.\<close>

fun mark_assigned :: "json list \<Rightarrow> json \<Rightarrow> error + json list" where
  "mark_assigned [] payload = Inr []"
| "mark_assigned (chore # rest) payload =
     bind_err (same_pair chore payload) (\<lambda>hit.
       if hit
       then bind_err (getitem payload ''completed'') (\<lambda>v.
            bind_err (setitem chore ''completed'' v) (\<lambda>chore'.
              Inr (chore' # rest)))
       else bind_err (mark_assigned rest payload) (\<lambda>rest'.
              Inr (chore # rest')))"

text \<open>\<^verbatim>\<open>any(... for log in completedLog)\<close>: stops at the first hit.\<close>

fun log_exists :: "json list \<Rightarrow> json \<Rightarrow> error + bool" where
  "log_exists [] payload = Inr False"
| "log_exists (entry # rest) payload =
     bind_err (same_pair entry payload) (\<lambda>hit.
       if hit then Inr True else log_exists rest payload)"

text \<open>\<^verbatim>\<open>[log for log in completedLog if not (...)]\<close>.\<close>

fun unlog :: "json list \<Rightarrow> json \<Rightarrow> error + json list" where
  "unlog [] payload = Inr []"
| "unlog (entry # rest) payload =
     bind_err (same_pair entry payload) (\<lambda>hit.
     bind_err (unlog rest payload) (\<lambda>rest'.
       Inr (if \<not> hit then entry # rest' else rest')))"

text \<open>The dictionary appended to the log. The default of \<^verbatim>\<open>get\<close> is an argument, so
  \<^verbatim>\<open>payload['choreId']\<close> is read whether or not \<^verbatim>\<open>logId\<close> is there.\<close>

definition new_log_entry :: "json \<Rightarrow> error + json" where
  "new_log_entry payload =
     bind_err (getitem payload ''choreId'') (\<lambda>dflt.
     bind_err (py_get payload ''logId'' dflt) (\<lambda>lid.
     bind_err (getitem payload ''choreId'') (\<lambda>cid.
     bind_err (getitem payload ''userId'') (\<lambda>uid.
     bind_err (py_get payload ''timestamp'' JNull) (\<lambda>ts.
       Inr (JObj [(''logId'', lid), (''choreId'', cid), (''userId'', uid),
                  (''timestamp'', ts)]))))))"

definition update_weekly_chore :: "document \<Rightarrow> json \<Rightarrow> error + document" where
  "update_weekly_chore data payload =
     bind_err (mark_assigned (assignedChores (currentWeek data)) payload) (\<lambda>assigned.
     bind_err (getitem payload ''completed'') (\<lambda>completed.
       if truthy completed
       then bind_err (log_exists (completedLog (currentWeek data)) payload) (\<lambda>found.
              if \<not> found
              then bind_err (new_log_entry payload) (\<lambda>entry.
                     Inr (data\<lparr>currentWeek := (currentWeek data)
                            \<lparr>assignedChores := assigned,
                             completedLog := completedLog (currentWeek data) @ [entry]\<rparr>\<rparr>))
              else Inr (data\<lparr>currentWeek := (currentWeek data)
                            \<lparr>assignedChores := assigned\<rparr>\<rparr>))
       else bind_err (unlog (completedLog (currentWeek data)) payload) (\<lambda>log'.
              Inr (data\<lparr>currentWeek := (currentWeek data)
                     \<lparr>assignedChores := assigned, completedLog := log'\<rparr>\<rparr>))))"

subsection \<open>\<^verbatim>\<open>add_chore\<close>\<close>

definition add_chore :: "document \<Rightarrow> json \<Rightarrow> error + document" where
  "add_chore data new_chore_data =
     bind_err (getitem new_chore_data ''id'') (\<lambda>cid.
     bind_err (getitem new_chore_data ''name'') (\<lambda>name.
     bind_err (getitem new_chore_data ''points'') (\<lambda>points.
     bind_err (getitem new_chore_data ''type'') (\<lambda>ty.
     let chore_to_add = JObj [(''id'', cid), (''name'', name), (''points'', points),
                              (''type'', ty)];
         data1 = data\<lparr>masterChores := masterChores data @ [chore_to_add]\<rparr>
     in
     bind_err (getitem new_chore_data ''type'') (\<lambda>ty'.
       if py_eq ty' (JStr ''weekly'') \<and> has_key new_chore_data ''assignedUserId''
       then bind_err (getitem new_chore_data ''id'') (\<lambda>cid'.
            bind_err (getitem new_chore_data ''assignedUserId'') (\<lambda>uid.
              Inr (data1\<lparr>currentWeek := (currentWeek data1)
                     \<lparr>assignedChores := assignedChores (currentWeek data1) @
                        [JObj [(''choreId'', cid'), (''userId'', uid),
                               (''completed'', JBool False)]]\<rparr>\<rparr>)))
       else Inr data1)))))"

subsection \<open>\<^verbatim>\<open>delete_chore\<close>\<close>

text \<open>The test \<^verbatim>\<open>c[key] != chore_id_to_delete\<close>.\<close>

definition differs :: "string \<Rightarrow> json \<Rightarrow> json \<Rightarrow> error + bool" where
  "differs key chore_id_to_delete c =
     bind_err (getitem c key) (\<lambda>v. Inr (\<not> py_eq v chore_id_to_delete))"

text \<open>\<^verbatim>\<open>[c for c in cs if c[key] != chore_id_to_delete]\<close>.\<close>

fun keep_others :: "string \<Rightarrow> json \<Rightarrow> json list \<Rightarrow> error + json list" where
  "keep_others key chore_id_to_delete [] = Inr []"
| "keep_others key chore_id_to_delete (c # cs) =
     bind_err (differs key chore_id_to_delete c) (\<lambda>keep.
     bind_err (keep_others key chore_id_to_delete cs) (\<lambda>cs'.
       Inr (if keep then c # cs' else cs')))"

definition delete_chore :: "document \<Rightarrow> json \<Rightarrow> error + document" where
  "delete_chore data payload =
     bind_err (getitem payload ''choreId'') (\<lambda>chore_id_to_delete.
     bind_err (keep_others ''id'' chore_id_to_delete (masterChores data)) (\<lambda>master.
     bind_err (keep_others ''choreId'' chore_id_to_delete
                 (assignedChores (currentWeek data))) (\<lambda>assigned.
     bind_err (keep_others ''choreId'' chore_id_to_delete
                 (completedLog (currentWeek data))) (\<lambda>log'.
       Inr (data\<lparr>masterChores := master,
                 currentWeek := (currentWeek data)
                   \<lparr>assignedChores := assigned, completedLog := log'\<rparr>\<rparr>)))))"

subsection \<open>\<^verbatim>\<open>reset_week\<close>\<close>

text \<open>The loop \<^verbatim>\<open>for chore in assignedChores: chore['completed'] = False\<close>.\<close>

fun uncomplete_all :: "json list \<Rightarrow> error + json list" where
  "uncomplete_all [] = Inr []"
| "uncomplete_all (chore # rest) =
     bind_err (setitem chore ''completed'' (JBool False)) (\<lambda>chore'.
     bind_err (uncomplete_all rest) (\<lambda>rest'.
       Inr (chore' # rest')))"

definition reset_week :: "document \<Rightarrow> json \<Rightarrow> error + document" where
  "reset_week data payload =
     bind_err (getitem payload ''prize'') (\<lambda>_.
     bind_err (getitem payload ''prize'') (\<lambda>p.
     bind_err (uncomplete_all (assignedChores (currentWeek data))) (\<lambda>assigned.
       Inr (data\<lparr>currentWeek := (currentWeek data)
              \<lparr>prize := p, assignedChores := assigned, completedLog := []\<rparr>\<rparr>))))"

subsection \<open>Documents the server can hold\<close>

text \<open>The documents that a sequence of successful requests leads to, from a fresh start.\<close>

inductive reachable :: "document \<Rightarrow> bool" where
  start: "reachable default_data"
| log: "reachable d \<Longrightarrow> log_chore d p = Inr d' \<Longrightarrow> reachable d'"
| update: "reachable d \<Longrightarrow> update_weekly_chore d p = Inr d' \<Longrightarrow> reachable d'"
| add: "reachable d \<Longrightarrow> add_chore d p = Inr d' \<Longrightarrow> reachable d'"
| delete: "reachable d \<Longrightarrow> delete_chore d p = Inr d' \<Longrightarrow> reachable d'"
| reset: "reachable d \<Longrightarrow> reset_week d p = Inr d' \<Longrightarrow> reachable d'"

section \<open>Sample requests\<close>

text \<open>The requests of the walk-through: a weekly chore is added for user 1, ticked off,
  unticked and deleted. \<open>week_of [chore_row 3 1 False] []\<close> is the document after the
  first of them.\<close>

definition add_trash :: json where
  "add_trash = JObj [(''id'', JInt 3), (''name'', JStr ''Take out trash''),
     (''points'', JInt 10), (''type'', JStr ''weekly''), (''assignedUserId'', JInt 1)]"

definition tick_trash :: json where
  "tick_trash = JObj [(''choreId'', JInt 3), (''userId'', JInt 1),
     (''completed'', JBool True), (''timestamp'', JStr ''T1'')]"

definition untick_trash :: json where
  "untick_trash = JObj [(''choreId'', JInt 3), (''userId'', JInt 1),
     (''completed'', JBool False)]"

definition delete_trash :: json where
  "delete_trash = JObj [(''choreId'', JInt 3)]"

definition trash_master :: json where
  "trash_master = JObj [(''id'', JInt 3), (''name'', JStr ''Take out trash''),
     (''points'', JInt 10), (''type'', JStr ''weekly'')]"

definition chore_row :: "int \<Rightarrow> int \<Rightarrow> bool \<Rightarrow> json" where
  "chore_row c u done = JObj [(''choreId'', JInt c), (''userId'', JInt u),
     (''completed'', JBool done)]"

definition trash_logged :: json where
  "trash_logged = JObj [(''logId'', JInt 3), (''choreId'', JInt 3), (''userId'', JInt 1),
     (''timestamp'', JStr ''T1'')]"

text \<open>A log entry for the same chore and user, as \<^verbatim>\<open>log_chore\<close> stores it.\<close>

definition trash_noted :: json where
  "trash_noted = JObj [(''choreId'', JInt 3), (''userId'', JInt 1),
     (''timestamp'', JStr ''T0'')]"

text \<open>The same request for a chore whose id is not a number, and the entry it logs.\<close>

definition tick_nan :: json where
  "tick_nan = JObj [(''choreId'', JFloat FNan), (''userId'', JInt 1),
     (''completed'', JBool True)]"

definition nan_logged :: json where
  "nan_logged = JObj [(''logId'', JFloat FNan), (''choreId'', JFloat FNan),
     (''userId'', JInt 1), (''timestamp'', JNull)]"

definition week_of :: "json list \<Rightarrow> json list \<Rightarrow> document" where
  "week_of rows logged =
     default_data\<lparr>masterChores := masterChores default_data @ [trash_master],
       currentWeek := (currentWeek default_data)
         \<lparr>assignedChores := rows, completedLog := logged\<rparr>\<rparr>"

text \<open>The number of log entries for the pair of a payload.\<close>

definition pair_count :: "json list \<Rightarrow> json \<Rightarrow> nat" where
  "pair_count logged payload =
     length (filter (\<lambda>l. same_pair l payload = Inr True) logged)"

section \<open>Basic facts about the Python operations\<close>

lemma bind_err_Inl [simp]: "bind_err (Inl e) f = Inl e"
  by (simp add: bind_err_def)

lemma bind_err_Inr [simp]: "bind_err (Inr v) f = f v"
  by (simp add: bind_err_def)

lemma bind_err_eq_Inr: "bind_err m f = Inr y \<longleftrightarrow> (\<exists>v. m = Inr v \<and> f v = Inr y)"
  by (cases m) simp_all

lemma bind_err_eq_Inl: "bind_err m f = Inl e \<longleftrightarrow> m = Inl e \<or> (\<exists>v. m = Inr v \<and> f v = Inl e)"
  by (cases m) simp_all

lemma py_eq_FNan_left: "\<not> py_eq (JFloat FNan) y"
  by simp

lemma py_eq_FNan_right: "\<not> py_eq x (JFloat FNan)"
proof (cases x)
  case (JFloat f)
  then show ?thesis by (cases f) simp_all
qed simp_all

lemma py_eq_self: "x \<noteq> JFloat FNan \<Longrightarrow> py_eq x x"
proof (induction x)
  case (JFloat f)
  then show ?case by (cases f) simp_all
next
  case (JList xs)
  then have "(a = JFloat FNan \<and> a = JFloat FNan) \<or> py_eq a a" if "a \<in> set xs" for a
    using that by blast
  then show ?case by (simp add: list_all2_same)
next
  case (JObj kvs)
  have "case map_of kvs k of None \<Rightarrow> False
        | Some v \<Rightarrow> (case map_of kvs k of None \<Rightarrow> False
            | Some w \<Rightarrow> (v = JFloat FNan \<and> w = JFloat FNan) \<or> py_eq v w)"
    if "k \<in> fst ` set kvs" for k
  proof -
    from that obtain v where v: "map_of kvs k = Some v"
      by (metis domD dom_map_of_conv_image_fst)
    then have "(k, v) \<in> set kvs" by (rule map_of_SomeD)
    then have "v \<noteq> JFloat FNan \<Longrightarrow> py_eq v v" using JObj.IH [of "(k, v)" v] by simp
    with v show ?thesis by auto
  qed
  then show ?case by simp
qed simp_all

lemma py_eq_self_iff: "py_eq x x \<longleftrightarrow> x \<noteq> JFloat FNan"
  using py_eq_self [of x] py_eq_FNan_left [of x] by auto

lemma py_eq_JStr: "py_eq x (JStr s) \<longleftrightarrow> x = JStr s"
proof (cases x)
  case (JFloat f)
  then show ?thesis by (cases f) simp_all
qed auto

lemma py_eq_True_truthy: "py_eq c (JBool True) \<Longrightarrow> truthy c"
proof (cases c)
  case (JFloat f)
  assume "py_eq c (JBool True)"
  with JFloat show ?thesis by (cases f) simp_all
qed (auto split: if_splits)

lemma py_eq_False_falsy: "py_eq c (JBool False) \<Longrightarrow> \<not> truthy c"
proof (cases c)
  case (JFloat f)
  assume "py_eq c (JBool False)"
  with JFloat show ?thesis by (cases f) simp_all
qed (auto split: if_splits)

lemma getitem_Inr_iff: "getitem x k = Inr v \<longleftrightarrow> (\<exists>kvs. x = JObj kvs \<and> map_of kvs k = Some v)"
  by (cases x) (auto split: option.splits)

lemma has_key_iff: "has_key x k \<longleftrightarrow> (\<exists>v. getitem x k = Inr v)"
  by (cases x) (auto split: option.splits)

lemma map_of_assign: "map_of (assign kvs k v) k' = (if k' = k then Some v else map_of kvs k')"
  by (induction kvs k v rule: assign.induct) auto

lemma assign_idem: "assign (assign kvs k v) k v = assign kvs k v"
  by (induction kvs k v rule: assign.induct) auto

lemma setitem_getitem:
  "setitem x k v = Inr x' \<Longrightarrow> getitem x' k' = (if k' = k then Inr v else getitem x k')"
  by (cases x) (auto simp: map_of_assign)

lemma setitem_idem: "setitem x k v = Inr x' \<Longrightarrow> setitem x' k v = Inr x'"
  by (cases x) (auto simp: assign_idem)

lemma same_pair_setitem:
  "setitem x ''completed'' v = Inr x' \<Longrightarrow> same_pair x' p = same_pair x p"
  using setitem_getitem [of x "''completed''" v x'] by (simp add: same_pair_def cong: if_cong)

subsection \<open>The steps of \<^verbatim>\<open>update_weekly_chore\<close>\<close>

lemma same_pair_total:
  "has_key e ''choreId'' \<Longrightarrow> has_key e ''userId'' \<Longrightarrow>
   has_key p ''choreId'' \<Longrightarrow> has_key p ''userId'' \<Longrightarrow> \<exists>b. same_pair e p = Inr b"
  by (auto simp: has_key_iff same_pair_def)

lemma same_pair_TrueD:
  assumes "same_pair e p = Inr True"
  shows "\<exists>c u pc pu. getitem e ''choreId'' = Inr c \<and> getitem e ''userId'' = Inr u \<and>
           getitem p ''choreId'' = Inr pc \<and> getitem p ''userId'' = Inr pu \<and>
           py_eq c pc \<and> py_eq u pu"
  using assms by (auto simp: same_pair_def bind_err_eq_Inr split: if_splits)

lemma same_pair_True_dict: "same_pair e p = Inr True \<Longrightarrow> \<exists>kvs. e = JObj kvs"
  by (cases e) (auto simp: same_pair_def)

lemma mark_assigned_no_hit:
  "mark_assigned cs p = Inr cs' \<Longrightarrow> \<forall>c\<in>set cs. same_pair c p \<noteq> Inr True \<Longrightarrow> cs' = cs"
proof (induction cs arbitrary: cs')
  case Nil
  then show ?case by simp
next
  case (Cons c cs)
  from Cons.prems obtain rest' where "mark_assigned cs p = Inr rest'" "cs' = c # rest'"
    by (auto simp: bind_err_eq_Inr split: if_splits)
  with Cons show ?case by simp
qed

lemma mark_assigned_first_hit:
  "mark_assigned (pre @ x # post) p = Inr cs' \<Longrightarrow>
   \<forall>c\<in>set pre. same_pair c p \<noteq> Inr True \<Longrightarrow> same_pair x p = Inr True \<Longrightarrow>
   \<exists>v x'. getitem p ''completed'' = Inr v \<and> setitem x ''completed'' v = Inr x' \<and>
          cs' = pre @ x' # post"
proof (induction pre arbitrary: cs')
  case Nil
  then show ?case by (auto simp: bind_err_eq_Inr)
next
  case (Cons c pre)
  from Cons.prems obtain rest' where
    "mark_assigned (pre @ x # post) p = Inr rest'" "cs' = c # rest'"
    by (auto simp: bind_err_eq_Inr split: if_splits)
  with Cons show ?case by simp
qed

lemma mark_assigned_total:
  assumes "\<forall>c\<in>set cs. has_key c ''choreId'' \<and> has_key c ''userId''"
    and "has_key p ''choreId''" "has_key p ''userId''" "has_key p ''completed''"
  shows "\<exists>cs'. mark_assigned cs p = Inr cs'"
  using assms(1)
proof (induction cs)
  case Nil
  then show ?case by simp
next
  case (Cons c cs)
  then obtain b where b: "same_pair c p = Inr b"
    using same_pair_total assms(2,3) by fastforce
  from Cons obtain rest' where rest: "mark_assigned cs p = Inr rest'" by auto
  from assms(4) obtain v where v: "getitem p ''completed'' = Inr v"
    by (auto simp: has_key_iff)
  show ?case
  proof (cases b)
    case True
    with b have "same_pair c p = Inr True" by simp
    moreover from this obtain kvs where "c = JObj kvs" using same_pair_True_dict by blast
    ultimately show ?thesis using v by simp
  next
    case False
    with b rest show ?thesis by simp
  qed
qed

lemma mark_assigned_idem:
  "mark_assigned cs p = Inr cs' \<Longrightarrow> mark_assigned cs' p = Inr cs'"
proof (induction cs arbitrary: cs')
  case Nil
  then show ?case by simp
next
  case (Cons c cs)
  from Cons.prems obtain hit where hit: "same_pair c p = Inr hit"
    by (auto simp: bind_err_eq_Inr)
  show ?case
  proof (cases hit)
    case True
    with Cons.prems hit obtain v c' where
      v: "getitem p ''completed'' = Inr v" and c': "setitem c ''completed'' v = Inr c'"
      and cs': "cs' = c' # cs"
      by (auto simp: bind_err_eq_Inr)
    from c' have "same_pair c' p = Inr True" "setitem c' ''completed'' v = Inr c'"
      using hit True by (simp_all add: same_pair_setitem setitem_idem)
    with v cs' show ?thesis by simp
  next
    case False
    with Cons.prems hit obtain rest' where
      "mark_assigned cs p = Inr rest'" "cs' = c # rest'"
      by (auto simp: bind_err_eq_Inr)
    with Cons.IH hit False show ?thesis by simp
  qed
qed

lemma log_exists_Inr:
  "log_exists ls p = Inr b \<Longrightarrow> b \<longleftrightarrow> (\<exists>l\<in>set ls. same_pair l p = Inr True)"
proof (induction ls)
  case Nil
  then show ?case by simp
next
  case (Cons l ls)
  from Cons.prems obtain hit where hit: "same_pair l p = Inr hit"
    by (auto simp: bind_err_eq_Inr)
  show ?case
  proof (cases hit)
    case True
    with Cons.prems hit show ?thesis by auto
  next
    case False
    with Cons hit show ?thesis by simp
  qed
qed

lemma log_exists_append:
  "\<forall>l\<in>set ls. same_pair l p = Inr False \<Longrightarrow> log_exists (ls @ ms) p = log_exists ms p"
  by (induction ls) simp_all

lemma log_exists_FalseD:
  "log_exists ls p = Inr False \<Longrightarrow> \<forall>l\<in>set ls. same_pair l p = Inr False"
  by (induction ls) (auto simp: bind_err_eq_Inr split: if_splits)

lemma log_exists_total:
  assumes "\<forall>l\<in>set ls. has_key l ''choreId'' \<and> has_key l ''userId''"
    and "has_key p ''choreId''" "has_key p ''userId''"
  shows "\<exists>b. log_exists ls p = Inr b"
  using assms(1)
proof (induction ls)
  case Nil
  show ?case by (rule exI [of _ False]) simp
next
  case (Cons l ls)
  then obtain b where b: "same_pair l p = Inr b"
    using same_pair_total assms(2,3) by fastforce
  from Cons obtain b' where "log_exists ls p = Inr b'" by auto
  with b show ?case by (cases b) auto
qed

lemma unlog_Inr:
  "unlog ls p = Inr r \<Longrightarrow> r = filter (\<lambda>l. same_pair l p \<noteq> Inr True) ls"
  by (induction ls arbitrary: r) (auto simp: bind_err_eq_Inr split: if_splits)

lemma unlog_total:
  assumes "\<forall>l\<in>set ls. has_key l ''choreId'' \<and> has_key l ''userId''"
    and "has_key p ''choreId''" "has_key p ''userId''"
  shows "\<exists>r. unlog ls p = Inr r"
  using assms(1)
proof (induction ls)
  case Nil
  then show ?case by simp
next
  case (Cons l ls)
  then obtain b where "same_pair l p = Inr b"
    using same_pair_total assms(2,3) by fastforce
  with Cons show ?case by auto
qed

lemma new_log_entry_Inr:
  "new_log_entry p = Inr e \<longleftrightarrow>
   (\<exists>cid uid lid ts. getitem p ''choreId'' = Inr cid \<and> getitem p ''userId'' = Inr uid \<and>
      py_get p ''logId'' cid = Inr lid \<and> py_get p ''timestamp'' JNull = Inr ts \<and>
      e = JObj [(''logId'', lid), (''choreId'', cid), (''userId'', uid), (''timestamp'', ts)])"
  by (auto simp: new_log_entry_def bind_err_eq_Inr)

lemma new_log_entry_total:
  "has_key p ''choreId'' \<Longrightarrow> has_key p ''userId'' \<Longrightarrow> \<exists>e. new_log_entry p = Inr e"
proof -
  assume "has_key p ''choreId''" "has_key p ''userId''"
  then obtain kvs cid uid where "p = JObj kvs" "getitem p ''choreId'' = Inr cid"
    "getitem p ''userId'' = Inr uid"
    by (auto simp: has_key_iff getitem_Inr_iff)
  then show ?thesis by (simp add: new_log_entry_def)
qed

lemma same_pair_new_log_entry:
  "new_log_entry p = Inr e \<Longrightarrow> getitem p ''choreId'' = Inr cid \<Longrightarrow>
   getitem p ''userId'' = Inr uid \<Longrightarrow>
   same_pair e p = Inr (cid \<noteq> JFloat FNan \<and> uid \<noteq> JFloat FNan)"
  by (auto simp: new_log_entry_Inr same_pair_def py_eq_self_iff)

lemma update_weekly_chore_Inr:
  "update_weekly_chore d p = Inr d' \<longleftrightarrow>
   (\<exists>assigned c. mark_assigned (assignedChores (currentWeek d)) p = Inr assigned \<and>
      getitem p ''completed'' = Inr c \<and>
      (if truthy c
       then \<exists>found. log_exists (completedLog (currentWeek d)) p = Inr found \<and>
              (if found
               then d' = d\<lparr>currentWeek := (currentWeek d)\<lparr>assignedChores := assigned\<rparr>\<rparr>
               else \<exists>entry. new_log_entry p = Inr entry \<and>
                      d' = d\<lparr>currentWeek := (currentWeek d)
                             \<lparr>assignedChores := assigned,
                              completedLog := completedLog (currentWeek d) @ [entry]\<rparr>\<rparr>)
       else \<exists>log'. unlog (completedLog (currentWeek d)) p = Inr log' \<and>
              d' = d\<lparr>currentWeek := (currentWeek d)
                     \<lparr>assignedChores := assigned, completedLog := log'\<rparr>\<rparr>))"
  by (cases "mark_assigned (assignedChores (currentWeek d)) p";
      cases "getitem p ''completed''";
      cases "log_exists (completedLog (currentWeek d)) p";
      cases "unlog (completedLog (currentWeek d)) p";
      cases "new_log_entry p")
     (auto simp: update_weekly_chore_def)

lemma update_weekly_chore_total:
  assumes "\<forall>c\<in>set (assignedChores (currentWeek d)).
             has_key c ''choreId'' \<and> has_key c ''userId''"
    and "\<forall>l\<in>set (completedLog (currentWeek d)).
             has_key l ''choreId'' \<and> has_key l ''userId''"
    and "has_key p ''choreId''" "has_key p ''userId''" "has_key p ''completed''"
  shows "\<exists>d'. update_weekly_chore d p = Inr d'"
proof -
  obtain assigned where a: "mark_assigned (assignedChores (currentWeek d)) p = Inr assigned"
    using mark_assigned_total [OF assms(1,3,4,5)] by blast
  obtain c where c: "getitem p ''completed'' = Inr c"
    using assms(5) by (auto simp: has_key_iff)
  obtain found where f: "log_exists (completedLog (currentWeek d)) p = Inr found"
    using log_exists_total [OF assms(2,3,4)] by blast
  obtain entry where e: "new_log_entry p = Inr entry"
    using new_log_entry_total [OF assms(3,4)] by blast
  obtain log' where u: "unlog (completedLog (currentWeek d)) p = Inr log'"
    using unlog_total [OF assms(2,3,4)] by blast
  show ?thesis
    by (simp add: update_weekly_chore_def a c f e u)
qed

lemma py_get_dict:
  "getitem p k' = Inr v \<Longrightarrow>
   py_get p k dflt = Inr (case getitem p k of Inl _ \<Rightarrow> dflt | Inr w \<Rightarrow> w)"
  by (cases p) (auto split: option.splits)

lemma pair_count_none:
  "\<forall>l\<in>set ls. same_pair l p \<noteq> Inr True \<Longrightarrow> pair_count ls p = 0"
  by (simp add: pair_count_def)

lemma same_pair_FNan:
  assumes "getitem p ''choreId'' = Inr cid" "getitem p ''userId'' = Inr uid"
    and "cid = JFloat FNan \<or> uid = JFloat FNan"
  shows "same_pair e p \<noteq> Inr True"
proof
  assume "same_pair e p = Inr True"
  from same_pair_TrueD [OF this] assms(1,2) obtain c u where "py_eq c cid" "py_eq u uid"
    by auto
  with assms(3) show False using py_eq_FNan_right by auto
qed

subsection \<open>Payloads without the keys \<^verbatim>\<open>update_weekly_chore\<close> reads\<close>

lemma same_pair_never_True:
  "\<not> has_key p ''choreId'' \<or> \<not> has_key p ''userId'' \<Longrightarrow> same_pair e p \<noteq> Inr True"
  using same_pair_TrueD [of e p] by (auto simp: has_key_iff)

lemma same_pair_no_choreId:
  "\<not> has_key p ''choreId'' \<Longrightarrow> \<exists>err. same_pair e p = Inl err"
  by (cases "getitem e ''choreId''"; cases "getitem p ''choreId''")
     (auto simp: same_pair_def has_key_iff)

lemma mark_assigned_all_False:
  "\<forall>c\<in>set cs. same_pair c p = Inr False \<Longrightarrow> mark_assigned cs p = Inr cs"
  by (induction cs) simp_all

lemma unlog_all_False:
  "\<forall>l\<in>set ls. same_pair l p = Inr False \<Longrightarrow> unlog ls p = Inr ls"
  by (induction ls) simp_all

lemma mark_assigned_Inr_all:
  "mark_assigned cs p = Inr cs' \<Longrightarrow> \<forall>c\<in>set cs. same_pair c p \<noteq> Inr True \<Longrightarrow>
   \<forall>c\<in>set cs. same_pair c p = Inr False"
proof (induction cs arbitrary: cs')
  case Nil
  then show ?case by simp
next
  case (Cons c cs)
  from Cons.prems obtain rest' where "same_pair c p = Inr False"
    "mark_assigned cs p = Inr rest'"
    by (auto simp: bind_err_eq_Inr split: if_splits)
  with Cons show ?case by simp
qed

lemma unlog_Inr_all:
  "unlog ls p = Inr r \<Longrightarrow> \<forall>l\<in>set ls. same_pair l p \<noteq> Inr True \<Longrightarrow>
   \<forall>l\<in>set ls. same_pair l p = Inr False"
proof (induction ls arbitrary: r)
  case Nil
  then show ?case by simp
next
  case (Cons l ls)
  from Cons.prems(1) obtain hit rest' where "same_pair l p = Inr hit"
    "unlog ls p = Inr rest'"
    by (auto simp: bind_err_eq_Inr)
  with Cons show ?case by (cases hit) simp_all
qed

lemma sum_cases_err: "(\<And>y. r \<noteq> Inr y) \<Longrightarrow> \<exists>e. r = Inl e"
  by (cases r) auto

lemma update_weekly_chore_no_completed:
  "\<not> has_key p ''completed'' \<Longrightarrow> \<exists>e. update_weekly_chore d p = Inl e"
  by (rule sum_cases_err) (auto simp: update_weekly_chore_Inr has_key_iff)

lemma update_weekly_chore_truthy_no_ids:
  assumes "getitem p ''completed'' = Inr c" "truthy c"
    and "\<not> has_key p ''choreId'' \<or> \<not> has_key p ''userId''"
  shows "\<exists>e. update_weekly_chore d p = Inl e"
proof (rule sum_cases_err)
  fix d'
  show "update_weekly_chore d p \<noteq> Inr d'"
  proof
    assume "update_weekly_chore d p = Inr d'"
    with assms(1,2) obtain found where
      f: "log_exists (completedLog (currentWeek d)) p = Inr found"
      and e: "\<not> found \<Longrightarrow> \<exists>entry. new_log_entry p = Inr entry"
      by (auto simp: update_weekly_chore_Inr split: if_splits)
    show False
    proof (cases found)
      case True
      with log_exists_Inr [OF f] obtain l where "same_pair l p = Inr True" by blast
      with same_pair_never_True [OF assms(3)] show False by blast
    next
      case False
      with e obtain entry where "new_log_entry p = Inr entry" by blast
      then have "has_key p ''choreId'' \<and> has_key p ''userId''"
        unfolding new_log_entry_Inr has_key_iff by blast
      with assms(3) show False by blast
    qed
  qed
qed

lemma update_weekly_chore_falsy_no_ids:
  assumes "getitem p ''completed'' = Inr c" "\<not> truthy c"
    and "\<not> has_key p ''choreId'' \<or> \<not> has_key p ''userId''"
  shows "if \<forall>e\<in>set (assignedChores (currentWeek d) @ completedLog (currentWeek d)).
              same_pair e p = Inr False
         then update_weekly_chore d p = Inr d
         else \<exists>e. update_weekly_chore d p = Inl e"
proof (cases "\<forall>e\<in>set (assignedChores (currentWeek d) @ completedLog (currentWeek d)).
              same_pair e p = Inr False")
  case True
  then have "mark_assigned (assignedChores (currentWeek d)) p = Inr (assignedChores (currentWeek d))"
    "unlog (completedLog (currentWeek d)) p = Inr (completedLog (currentWeek d))"
    by (simp_all add: mark_assigned_all_False unlog_all_False)
  with assms(1,2) have "update_weekly_chore d p = Inr d"
    by (simp add: update_weekly_chore_def)
  then show ?thesis unfolding if_P [OF True] .
next
  case False
  have "\<exists>e. update_weekly_chore d p = Inl e"
  proof (rule sum_cases_err)
    fix d'
    show "update_weekly_chore d p \<noteq> Inr d'"
    proof
      assume "update_weekly_chore d p = Inr d'"
      with assms(1,2) obtain assigned log' where
        m: "mark_assigned (assignedChores (currentWeek d)) p = Inr assigned"
        and u: "unlog (completedLog (currentWeek d)) p = Inr log'"
        by (auto simp: update_weekly_chore_Inr)
      have "\<forall>c\<in>set (assignedChores (currentWeek d)). same_pair c p = Inr False"
        using mark_assigned_Inr_all [OF m] same_pair_never_True [OF assms(3)] by blast
      moreover have "\<forall>l\<in>set (completedLog (currentWeek d)). same_pair l p = Inr False"
        using unlog_Inr_all [OF u] same_pair_never_True [OF assms(3)] by blast
      ultimately show False using False by auto
    qed
  qed
  then show ?thesis unfolding if_not_P [OF False] .
qed

lemma getitem_dict_err: "is_dict x \<Longrightarrow> getitem x k = Inl e \<Longrightarrow> e = KeyError k"
  by (cases x) (auto split: option.splits)

lemma same_pair_dict_err:
  "is_dict e \<Longrightarrow> is_dict p \<Longrightarrow> same_pair e p = Inl err \<Longrightarrow> \<exists>k. err = KeyError k"
  by (auto simp: same_pair_def bind_err_eq_Inl split: if_splits dest: getitem_dict_err)

lemma setitem_dict: "is_dict x \<Longrightarrow> \<exists>x'. setitem x k v = Inr x'"
  by (cases x) auto

lemma mark_assigned_dict_err:
  "\<forall>c\<in>set cs. is_dict c \<Longrightarrow> is_dict p \<Longrightarrow> mark_assigned cs p = Inl err \<Longrightarrow>
   \<exists>k. err = KeyError k"
proof (induction cs)
  case Nil
  then show ?case by simp
next
  case (Cons c cs)
  from Cons.prems(1) have c': "\<exists>c'. setitem c ''completed'' v = Inr c'" for v
    using setitem_dict by auto
  from Cons.prems(3) consider
    "same_pair c p = Inl err"
    | "getitem p ''completed'' = Inl err"
    | v where "setitem c ''completed'' v = Inl err"
    | "mark_assigned cs p = Inl err"
    by (auto simp: bind_err_eq_Inl split: if_splits)
  then show ?case
  proof cases
    case 1
    with Cons.prems show ?thesis using same_pair_dict_err by auto
  next
    case 2
    with Cons.prems show ?thesis using getitem_dict_err by blast
  next
    case 3
    with c' [of v] show ?thesis by simp
  next
    case 4
    with Cons show ?thesis by simp
  qed
qed

lemma log_exists_dict_err:
  "\<forall>l\<in>set ls. is_dict l \<Longrightarrow> is_dict p \<Longrightarrow> log_exists ls p = Inl err \<Longrightarrow>
   \<exists>k. err = KeyError k"
proof (induction ls)
  case Nil
  then show ?case by simp
next
  case (Cons l ls)
  from Cons.prems(3) consider "same_pair l p = Inl err" | "log_exists ls p = Inl err"
    by (auto simp: bind_err_eq_Inl split: if_splits)
  then show ?case
  proof cases
    case 1
    with Cons.prems show ?thesis using same_pair_dict_err by auto
  next
    case 2
    with Cons show ?thesis by simp
  qed
qed

lemma unlog_dict_err:
  "\<forall>l\<in>set ls. is_dict l \<Longrightarrow> is_dict p \<Longrightarrow> unlog ls p = Inl err \<Longrightarrow>
   \<exists>k. err = KeyError k"
proof (induction ls)
  case Nil
  then show ?case by simp
next
  case (Cons l ls)
  from Cons.prems(3) consider "same_pair l p = Inl err" | "unlog ls p = Inl err"
    by (auto simp: bind_err_eq_Inl split: if_splits)
  then show ?case
  proof cases
    case 1
    with Cons.prems show ?thesis using same_pair_dict_err by auto
  next
    case 2
    with Cons show ?thesis by simp
  qed
qed

lemma new_log_entry_dict_err:
  "is_dict p \<Longrightarrow> new_log_entry p = Inl err \<Longrightarrow> \<exists>k. err = KeyError k"
  by (cases p) (auto simp: new_log_entry_def bind_err_eq_Inl split: option.splits)

lemma update_weekly_chore_dict_err:
  assumes "\<forall>c\<in>set (assignedChores (currentWeek d)). is_dict c"
    and "\<forall>l\<in>set (completedLog (currentWeek d)). is_dict l"
    and "is_dict p"
    and "update_weekly_chore d p = Inl err"
  shows "\<exists>k. err = KeyError k"
proof -
  from assms(4) consider
    "mark_assigned (assignedChores (currentWeek d)) p = Inl err"
    | "getitem p ''completed'' = Inl err"
    | "log_exists (completedLog (currentWeek d)) p = Inl err"
    | "new_log_entry p = Inl err"
    | "unlog (completedLog (currentWeek d)) p = Inl err"
    by (cases "mark_assigned (assignedChores (currentWeek d)) p";
        cases "getitem p ''completed''";
        cases "log_exists (completedLog (currentWeek d)) p";
        cases "unlog (completedLog (currentWeek d)) p";
        cases "new_log_entry p")
       (auto simp: update_weekly_chore_def split: if_splits)
  then show ?thesis
  proof cases
    case 1
    then show ?thesis using mark_assigned_dict_err assms(1,3) by blast
  next
    case 2
    then show ?thesis using getitem_dict_err assms(3) by blast
  next
    case 3
    then show ?thesis using log_exists_dict_err assms(2,3) by blast
  next
    case 4
    then show ?thesis using new_log_entry_dict_err assms(3) by blast
  next
    case 5
    then show ?thesis using unlog_dict_err assms(2,3) by blast
  qed
qed

subsection \<open>The filters of \<^verbatim>\<open>delete_chore\<close>\<close>

lemma differs_Inr_iff:
  "differs k cid c = Inr b \<longleftrightarrow> (\<exists>v. getitem c k = Inr v \<and> b = (\<not> py_eq v cid))"
  by (auto simp: differs_def bind_err_eq_Inr)

lemma differs_has_key: "differs k cid c = Inr b \<Longrightarrow> has_key c k"
  by (auto simp: differs_Inr_iff has_key_iff)

lemma differs_total: "has_key c k \<Longrightarrow> \<exists>b. differs k cid c = Inr b"
  by (auto simp: differs_def has_key_iff)

lemma keep_others_Inr_iff:
  "keep_others k cid cs = Inr r \<longleftrightarrow>
   (\<forall>c\<in>set cs. has_key c k) \<and> r = filter (\<lambda>c. differs k cid c = Inr True) cs"
proof (induction cs arbitrary: r)
  case Nil
  then show ?case by auto
next
  case (Cons c cs)
  show ?case
  proof (cases "differs k cid c")
    case (Inl e)
    then have "\<not> has_key c k" using differs_total [of c k cid] by auto
    with Inl show ?thesis by simp
  next
    case (Inr b)
    then have "has_key c k" by (rule differs_has_key)
    with Inr Cons show ?thesis by (cases b) (auto simp: bind_err_eq_Inr)
  qed
qed

lemma keep_others_idem:
  assumes "keep_others k cid cs = Inr r"
  shows "keep_others k cid r = Inr r"
proof -
  from assms have "\<forall>c\<in>set cs. has_key c k"
    and r: "r = filter (\<lambda>c. differs k cid c = Inr True) cs"
    by (simp_all add: keep_others_Inr_iff)
  then have "\<forall>c\<in>set r. has_key c k" by simp
  moreover from r have "filter (\<lambda>c. differs k cid c = Inr True) r = r" by simp
  ultimately show ?thesis by (simp add: keep_others_Inr_iff)
qed

lemma keep_others_absent:
  assumes "\<forall>c\<in>set cs. differs k cid c = Inr True"
  shows "keep_others k cid cs = Inr cs"
proof -
  from assms have "\<forall>c\<in>set cs. has_key c k" using differs_has_key by blast
  moreover from assms have "filter (\<lambda>c. differs k cid c = Inr True) cs = cs" by simp
  ultimately show ?thesis by (simp add: keep_others_Inr_iff)
qed

lemma delete_chore_Inr_iff:
  "delete_chore d p = Inr d' \<longleftrightarrow>
   (\<exists>cid. getitem p ''choreId'' = Inr cid \<and>
      (\<forall>c\<in>set (masterChores d). has_key c ''id'') \<and>
      (\<forall>c\<in>set (assignedChores (currentWeek d)). has_key c ''choreId'') \<and>
      (\<forall>l\<in>set (completedLog (currentWeek d)). has_key l ''choreId'') \<and>
      d' = d\<lparr>masterChores := filter (\<lambda>c. differs ''id'' cid c = Inr True) (masterChores d),
             currentWeek := (currentWeek d)
               \<lparr>assignedChores :=
                  filter (\<lambda>c. differs ''choreId'' cid c = Inr True)
                    (assignedChores (currentWeek d)),
                completedLog :=
                  filter (\<lambda>l. differs ''choreId'' cid l = Inr True)
                    (completedLog (currentWeek d))\<rparr>\<rparr>)"
  unfolding delete_chore_def bind_err_eq_Inr keep_others_Inr_iff by auto

lemma delete_chore_idem:
  assumes "delete_chore d p = Inr d'"
  shows "delete_chore d' p = Inr d'"
proof -
  from assms obtain cid master assigned log' where
    cid: "getitem p ''choreId'' = Inr cid"
    and m: "keep_others ''id'' cid (masterChores d) = Inr master"
    and a: "keep_others ''choreId'' cid (assignedChores (currentWeek d)) = Inr assigned"
    and l: "keep_others ''choreId'' cid (completedLog (currentWeek d)) = Inr log'"
    and d': "d' = d\<lparr>masterChores := master,
                 currentWeek := (currentWeek d)
                   \<lparr>assignedChores := assigned, completedLog := log'\<rparr>\<rparr>"
    unfolding delete_chore_def bind_err_eq_Inr by auto
  show ?thesis
    by (simp add: delete_chore_def d' cid keep_others_idem [OF m] keep_others_idem [OF a]
        keep_others_idem [OF l])
qed

subsection \<open>\<^verbatim>\<open>reset_week\<close> and \<^verbatim>\<open>add_chore\<close>\<close>

lemma uncomplete_all_Inr:
  "uncomplete_all cs = Inr r \<Longrightarrow>
   list_all2 (\<lambda>c c'. setitem c ''completed'' (JBool False) = Inr c') cs r"
  by (induction cs arbitrary: r) (auto simp: bind_err_eq_Inr)

lemma uncomplete_all_total:
  "\<forall>c\<in>set cs. is_dict c \<Longrightarrow> \<exists>r. uncomplete_all cs = Inr r"
proof (induction cs)
  case Nil
  then show ?case by simp
next
  case (Cons c cs)
  then have "is_dict c" by simp
  then obtain c' where "setitem c ''completed'' (JBool False) = Inr c'"
    using setitem_dict by blast
  moreover from Cons obtain r where "uncomplete_all cs = Inr r" by auto
  ultimately show ?case by simp
qed

lemma reset_week_Inr_iff:
  "reset_week d p = Inr d' \<longleftrightarrow>
   (\<exists>v assigned. getitem p ''prize'' = Inr v \<and>
      uncomplete_all (assignedChores (currentWeek d)) = Inr assigned \<and>
      d' = d\<lparr>currentWeek := (currentWeek d)
             \<lparr>prize := v, assignedChores := assigned, completedLog := []\<rparr>\<rparr>)"
  unfolding reset_week_def bind_err_eq_Inr by auto

lemma add_chore_eval:
  assumes "getitem p ''id'' = Inr i" "getitem p ''name'' = Inr n"
    "getitem p ''points'' = Inr pts" "getitem p ''type'' = Inr t"
  shows "add_chore d p =
    (if py_eq t (JStr ''weekly'') \<and> has_key p ''assignedUserId''
     then bind_err (getitem p ''assignedUserId'') (\<lambda>u.
            Inr (d\<lparr>masterChores := masterChores d @
                      [JObj [(''id'', i), (''name'', n), (''points'', pts), (''type'', t)]],
                    currentWeek := (currentWeek d)
                      \<lparr>assignedChores := assignedChores (currentWeek d) @
                         [JObj [(''choreId'', i), (''userId'', u),
                                (''completed'', JBool False)]]\<rparr>\<rparr>))
     else Inr (d\<lparr>masterChores := masterChores d @
                   [JObj [(''id'', i), (''name'', n), (''points'', pts), (''type'', t)]]\<rparr>))"
  using assms by (simp add: add_chore_def Let_def)

text \<open>The definitions of the sample requests, for evaluating the endpoints on them.\<close>

lemmas sample_defs = default_data_def week_of_def chore_row_def trash_master_def
  trash_logged_def trash_noted_def tick_nan_def nan_logged_def add_trash_def tick_trash_def untick_trash_def delete_trash_def

section \<open>Frame of \<^verbatim>\<open>log_chore\<close>\<close>

text \<open>
  C8. For every document and every payload (a JSON object or any other JSON value),
  \<^verbatim>\<open>log_chore\<close> succeeds, the new completed log is the old one followed by the payload
  itself, and the users, the master chores, the prize and the assigned chores are the
  old ones.
\<close>

theorem log_chore_appends_verbatim:
  "\<exists>d'. log_chore d payload = Inr d' \<and>
        completedLog (currentWeek d') = completedLog (currentWeek d) @ [payload] \<and>
        last (completedLog (currentWeek d')) = payload \<and>
        users d' = users d \<and>
        masterChores d' = masterChores d \<and>
        prize (currentWeek d') = prize (currentWeek d) \<and>
        assignedChores (currentWeek d') = assignedChores (currentWeek d)"
  by (simp add: log_chore_def)

theorem log_chore_appends_verbatim_witness:
  "\<exists>d'. log_chore default_data (JObj [(''note'', JStr ''swept the porch'')]) = Inr d' \<and>
        completedLog (currentWeek d') =
          completedLog (currentWeek default_data) @ [JObj [(''note'', JStr ''swept the porch'')]] \<and>
        last (completedLog (currentWeek d')) = JObj [(''note'', JStr ''swept the porch'')] \<and>
        users d' = users default_data \<and>
        masterChores d' = masterChores default_data \<and>
        prize (currentWeek d') = prize (currentWeek default_data) \<and>
        assignedChores (currentWeek d') = assignedChores (currentWeek default_data)"
  by (rule log_chore_appends_verbatim)

section \<open>\<^verbatim>\<open>update_weekly_chore\<close>: the assigned chore\<close>

text \<open>
  C7. When every assigned chore and every log entry has the keys \<^verbatim>\<open>choreId\<close> and
  \<^verbatim>\<open>userId\<close> and the payload has \<^verbatim>\<open>choreId\<close>, \<^verbatim>\<open>userId\<close> and \<^verbatim>\<open>completed\<close>, the
  endpoint returns a document. Whenever it returns a document: if no assigned chore has
  the payload's pair, the assigned chores are the old list; and if the list is
  \<open>pre @ x # post\<close> with \<open>x\<close> the first entry that has the pair, the new list is
  \<open>pre @ x' # post\<close>, where \<open>x'\<close> is \<open>x\<close> with \<^verbatim>\<open>completed\<close> set to the payload's value and
  every other key as in \<open>x\<close>.
\<close>

theorem update_weekly_chore_marks_first_match:
  "((\<forall>c\<in>set (assignedChores (currentWeek d)).
       has_key c ''choreId'' \<and> has_key c ''userId'') \<and>
    (\<forall>l\<in>set (completedLog (currentWeek d)).
       has_key l ''choreId'' \<and> has_key l ''userId'') \<and>
    has_key p ''choreId'' \<and> has_key p ''userId'' \<and> has_key p ''completed''
    \<longrightarrow> (\<exists>d'. update_weekly_chore d p = Inr d')) \<and>
   (\<forall>d'. update_weekly_chore d p = Inr d' \<longrightarrow>
      ((\<forall>c\<in>set (assignedChores (currentWeek d)). same_pair c p \<noteq> Inr True) \<longrightarrow>
         assignedChores (currentWeek d') = assignedChores (currentWeek d)) \<and>
      (\<forall>pre x post.
         assignedChores (currentWeek d) = pre @ x # post \<and>
         (\<forall>c\<in>set pre. same_pair c p \<noteq> Inr True) \<and> same_pair x p = Inr True \<longrightarrow>
         (\<exists>v x'. getitem p ''completed'' = Inr v \<and>
            setitem x ''completed'' v = Inr x' \<and>
            assignedChores (currentWeek d') = pre @ x' # post \<and>
            getitem x' ''completed'' = Inr v \<and>
            (\<forall>k. k \<noteq> ''completed'' \<longrightarrow> getitem x' k = getitem x k))))"
proof (intro conjI allI impI)
  assume "(\<forall>c\<in>set (assignedChores (currentWeek d)).
       has_key c ''choreId'' \<and> has_key c ''userId'') \<and>
    (\<forall>l\<in>set (completedLog (currentWeek d)).
       has_key l ''choreId'' \<and> has_key l ''userId'') \<and>
    has_key p ''choreId'' \<and> has_key p ''userId'' \<and> has_key p ''completed''"
  then show "\<exists>d'. update_weekly_chore d p = Inr d'"
    using update_weekly_chore_total by blast
next
  fix d'
  assume run: "update_weekly_chore d p = Inr d'"
    and none: "\<forall>c\<in>set (assignedChores (currentWeek d)). same_pair c p \<noteq> Inr True"
  from run obtain assigned where
    m: "mark_assigned (assignedChores (currentWeek d)) p = Inr assigned"
    and a: "assignedChores (currentWeek d') = assigned"
    by (auto simp: update_weekly_chore_Inr split: if_splits)
  from mark_assigned_no_hit [OF m none] a
  show "assignedChores (currentWeek d') = assignedChores (currentWeek d)" by simp
next
  fix d' pre x post
  assume run: "update_weekly_chore d p = Inr d'"
    and first: "assignedChores (currentWeek d) = pre @ x # post \<and>
         (\<forall>c\<in>set pre. same_pair c p \<noteq> Inr True) \<and> same_pair x p = Inr True"
  from run obtain assigned where
    m: "mark_assigned (assignedChores (currentWeek d)) p = Inr assigned"
    and a: "assignedChores (currentWeek d') = assigned"
    by (auto simp: update_weekly_chore_Inr split: if_splits)
  from m first have "mark_assigned (pre @ x # post) p = Inr assigned" by simp
  from mark_assigned_first_hit [OF this] first obtain v x' where
    v: "getitem p ''completed'' = Inr v" and x': "setitem x ''completed'' v = Inr x'"
    and eq: "assigned = pre @ x' # post"
    by blast
  from setitem_getitem [OF x'] have
    "getitem x' ''completed'' = Inr v"
    "\<forall>k. k \<noteq> ''completed'' \<longrightarrow> getitem x' k = getitem x k"
    by simp_all
  with v x' eq a
  show "\<exists>v x'. getitem p ''completed'' = Inr v \<and>
            setitem x ''completed'' v = Inr x' \<and>
            assignedChores (currentWeek d') = pre @ x' # post \<and>
            getitem x' ''completed'' = Inr v \<and>
            (\<forall>k. k \<noteq> ''completed'' \<longrightarrow> getitem x' k = getitem x k)"
    by blast
qed

theorem update_weekly_chore_marks_first_match_witness:
  "update_weekly_chore
     (week_of [chore_row 3 2 False, chore_row 3 1 False, chore_row 3 1 False] []) tick_trash =
   Inr (week_of [chore_row 3 2 False, chore_row 3 1 True, chore_row 3 1 False] [trash_logged]) \<and>
   same_pair (chore_row 3 2 False) tick_trash \<noteq> Inr True \<and>
   same_pair (chore_row 3 1 False) tick_trash = Inr True \<and>
   (\<exists>x'. assignedChores (currentWeek
            (week_of [chore_row 3 2 False, chore_row 3 1 True, chore_row 3 1 False]
               [trash_logged])) =
          [chore_row 3 2 False] @ x' # [chore_row 3 1 False] \<and>
        getitem x' ''completed'' = Inr (JBool True) \<and>
        getitem x' ''choreId'' = Inr (JInt 3) \<and> getitem x' ''userId'' = Inr (JInt 1)) \<and>
   update_weekly_chore (week_of [chore_row 3 2 False] []) untick_trash =
   Inr (week_of [chore_row 3 2 False] []) \<and>
   assignedChores (currentWeek (week_of [chore_row 3 2 False] [])) = [chore_row 3 2 False]"
proof -
  let ?d = "week_of [chore_row 3 2 False, chore_row 3 1 False, chore_row 3 1 False] []"
  let ?d' = "week_of [chore_row 3 2 False, chore_row 3 1 True, chore_row 3 1 False] [trash_logged]"
  let ?e = "week_of [chore_row 3 2 False] []"
  have run: "update_weekly_chore ?d tick_trash = Inr ?d'"
    by (simp add: sample_defs update_weekly_chore_def same_pair_def new_log_entry_def)
  have miss: "same_pair (chore_row 3 2 False) tick_trash \<noteq> Inr True"
    by (simp add: sample_defs same_pair_def)
  have hit: "same_pair (chore_row 3 1 False) tick_trash = Inr True"
    by (simp add: sample_defs same_pair_def)
  have split: "assignedChores (currentWeek ?d) =
      [chore_row 3 2 False] @ chore_row 3 1 False # [chore_row 3 1 False]"
    by (simp add: week_of_def)
  have pre: "\<forall>c\<in>set [chore_row 3 2 False]. same_pair c tick_trash \<noteq> Inr True"
    using miss by simp
  from update_weekly_chore_marks_first_match [of ?d tick_trash] run split pre hit
  obtain v x' where "getitem tick_trash ''completed'' = Inr v"
    "assignedChores (currentWeek ?d') = [chore_row 3 2 False] @ x' # [chore_row 3 1 False]"
    "getitem x' ''completed'' = Inr v"
    "\<forall>k. k \<noteq> ''completed'' \<longrightarrow> getitem x' k = getitem (chore_row 3 1 False) k"
    by blast
  then have first: "\<exists>x'. assignedChores (currentWeek ?d') =
          [chore_row 3 2 False] @ x' # [chore_row 3 1 False] \<and>
        getitem x' ''completed'' = Inr (JBool True) \<and>
        getitem x' ''choreId'' = Inr (JInt 3) \<and> getitem x' ''userId'' = Inr (JInt 1)"
    by (auto simp: tick_trash_def chore_row_def)
  have run2: "update_weekly_chore ?e untick_trash = Inr ?e"
    by (simp add: sample_defs update_weekly_chore_def same_pair_def)
  have none: "\<forall>c\<in>set (assignedChores (currentWeek ?e)). same_pair c untick_trash \<noteq> Inr True"
    by (simp add: sample_defs same_pair_def)
  from update_weekly_chore_marks_first_match [of ?e untick_trash] run2 none
  have "assignedChores (currentWeek ?e) = [chore_row 3 2 False]"
    by (simp add: week_of_def)
  with run miss hit first run2 show ?thesis by blast
qed

section \<open>\<^verbatim>\<open>update_weekly_chore\<close>: ticking a chore off\<close>

text \<open>
  C1, as amended. On well-formed input the endpoint returns a document. Whenever it
  returns a document for a payload whose \<^verbatim>\<open>completed\<close> equals \<^verbatim>\<open>true\<close>: the payload has
  \<^verbatim>\<open>choreId\<close> and \<^verbatim>\<open>userId\<close>; if some log entry already has the payload's pair, the log
  is the old one, and otherwise it is the old one followed by the single entry with
  \<^verbatim>\<open>logId\<close> (the payload's, or its \<^verbatim>\<open>choreId\<close> when it has none), \<^verbatim>\<open>choreId\<close>, \<^verbatim>\<open>userId\<close>
  and \<^verbatim>\<open>timestamp\<close> (the payload's, or \<^verbatim>\<open>null\<close>).

  When neither id of the payload is \<^verbatim>\<open>nan\<close>, the same request on the returned document
  returns that document again, and when the old log had no entry for the pair, the
  new log has exactly one. When an id of the payload is \<^verbatim>\<open>nan\<close>, no entry has the pair,
  the new entry included: the entry is appended, and the same request on the returned
  document appends it once more.
\<close>

theorem update_weekly_chore_logs_pair_once:
  "((\<forall>c\<in>set (assignedChores (currentWeek d)).
       has_key c ''choreId'' \<and> has_key c ''userId'') \<and>
    (\<forall>l\<in>set (completedLog (currentWeek d)).
       has_key l ''choreId'' \<and> has_key l ''userId'') \<and>
    has_key p ''choreId'' \<and> has_key p ''userId'' \<and> has_key p ''completed''
    \<longrightarrow> (\<exists>d'. update_weekly_chore d p = Inr d')) \<and>
   (\<forall>d' c. update_weekly_chore d p = Inr d' \<and>
       getitem p ''completed'' = Inr c \<and> py_eq c (JBool True) \<longrightarrow>
      (\<exists>cid uid entry.
         getitem p ''choreId'' = Inr cid \<and> getitem p ''userId'' = Inr uid \<and>
         entry =
           JObj [(''logId'', case getitem p ''logId'' of Inl _ \<Rightarrow> cid | Inr v \<Rightarrow> v),
                 (''choreId'', cid), (''userId'', uid),
                 (''timestamp'',
                    case getitem p ''timestamp'' of Inl _ \<Rightarrow> JNull | Inr v \<Rightarrow> v)] \<and>
         completedLog (currentWeek d') =
           (if \<exists>l\<in>set (completedLog (currentWeek d)). same_pair l p = Inr True
            then completedLog (currentWeek d)
            else completedLog (currentWeek d) @ [entry]) \<and>
         (cid \<noteq> JFloat FNan \<and> uid \<noteq> JFloat FNan \<longrightarrow>
            update_weekly_chore d' p = Inr d' \<and>
            ((\<forall>l\<in>set (completedLog (currentWeek d)). same_pair l p \<noteq> Inr True) \<longrightarrow>
               pair_count (completedLog (currentWeek d')) p = 1)) \<and>
         (cid = JFloat FNan \<or> uid = JFloat FNan \<longrightarrow>
            completedLog (currentWeek d') = completedLog (currentWeek d) @ [entry] \<and>
            (\<exists>d''. update_weekly_chore d' p = Inr d'' \<and>
               completedLog (currentWeek d'') =
                 completedLog (currentWeek d) @ [entry, entry]))))"
proof (intro conjI allI impI)
  assume "(\<forall>c\<in>set (assignedChores (currentWeek d)).
       has_key c ''choreId'' \<and> has_key c ''userId'') \<and>
    (\<forall>l\<in>set (completedLog (currentWeek d)).
       has_key l ''choreId'' \<and> has_key l ''userId'') \<and>
    has_key p ''choreId'' \<and> has_key p ''userId'' \<and> has_key p ''completed''"
  then show "\<exists>d'. update_weekly_chore d p = Inr d'"
    using update_weekly_chore_total by blast
next
  fix d' c
  assume asm: "update_weekly_chore d p = Inr d' \<and>
       getitem p ''completed'' = Inr c \<and> py_eq c (JBool True)"
  let ?log = "completedLog (currentWeek d)"
  let ?entry = "\<lambda>cid uid.
     JObj [(''logId'', case getitem p ''logId'' of Inl _ \<Rightarrow> cid | Inr v \<Rightarrow> v),
           (''choreId'', cid), (''userId'', uid),
           (''timestamp'', case getitem p ''timestamp'' of Inl _ \<Rightarrow> JNull | Inr v \<Rightarrow> v)]"
  from asm have c: "getitem p ''completed'' = Inr c" and t: "truthy c"
    by (simp_all add: py_eq_True_truthy)
  from asm c t obtain assigned found where
    m: "mark_assigned (assignedChores (currentWeek d)) p = Inr assigned"
    and f: "log_exists ?log p = Inr found"
    and hit: "found \<Longrightarrow> d' = d\<lparr>currentWeek := (currentWeek d)\<lparr>assignedChores := assigned\<rparr>\<rparr>"
    and miss: "\<not> found \<Longrightarrow> \<exists>entry. new_log_entry p = Inr entry \<and>
        d' = d\<lparr>currentWeek := (currentWeek d)
               \<lparr>assignedChores := assigned, completedLog := ?log @ [entry]\<rparr>\<rparr>"
    by (auto simp: update_weekly_chore_Inr split: if_splits)
  have found: "found \<longleftrightarrow> (\<exists>l\<in>set ?log. same_pair l p = Inr True)"
    using log_exists_Inr [OF f] .
  have m': "mark_assigned assigned p = Inr assigned"
    using mark_assigned_idem [OF m] .
  show "\<exists>cid uid entry.
         getitem p ''choreId'' = Inr cid \<and> getitem p ''userId'' = Inr uid \<and>
         entry = ?entry cid uid \<and>
         completedLog (currentWeek d') =
           (if \<exists>l\<in>set ?log. same_pair l p = Inr True then ?log else ?log @ [entry]) \<and>
         (cid \<noteq> JFloat FNan \<and> uid \<noteq> JFloat FNan \<longrightarrow>
            update_weekly_chore d' p = Inr d' \<and>
            ((\<forall>l\<in>set ?log. same_pair l p \<noteq> Inr True) \<longrightarrow>
               pair_count (completedLog (currentWeek d')) p = 1)) \<and>
         (cid = JFloat FNan \<or> uid = JFloat FNan \<longrightarrow>
            completedLog (currentWeek d') = ?log @ [entry] \<and>
            (\<exists>d''. update_weekly_chore d' p = Inr d'' \<and>
               completedLog (currentWeek d'') = ?log @ [entry, entry]))"
  proof (cases found)
    case True
    with found obtain l where l: "l \<in> set ?log" "same_pair l p = Inr True" by blast
    from same_pair_TrueD [OF l(2)] obtain cid uid where
      ids: "getitem p ''choreId'' = Inr cid" "getitem p ''userId'' = Inr uid" by blast
    have nonan: "\<not> (cid = JFloat FNan \<or> uid = JFloat FNan)"
      using same_pair_FNan [OF ids, of l] l(2) by blast
    from hit True have d': "d' = d\<lparr>currentWeek := (currentWeek d)\<lparr>assignedChores := assigned\<rparr>\<rparr>"
      by simp
    have again: "update_weekly_chore d' p = Inr d'"
      using True f by (simp add: d' update_weekly_chore_def m' c t)
    have log': "completedLog (currentWeek d') = ?log" by (simp add: d')
    have ex: "\<exists>l\<in>set ?log. same_pair l p = Inr True" using l by blast
    show ?thesis
      by (rule exI [of _ cid], rule exI [of _ uid], rule exI [of _ "?entry cid uid"])
         (use ids nonan again log' ex in auto)
  next
    case False
    with miss obtain entry where e: "new_log_entry p = Inr entry"
      and d': "d' = d\<lparr>currentWeek := (currentWeek d)
               \<lparr>assignedChores := assigned, completedLog := ?log @ [entry]\<rparr>\<rparr>"
      by blast
    from e obtain cid uid lid ts where
      ids: "getitem p ''choreId'' = Inr cid" "getitem p ''userId'' = Inr uid"
      and lid: "py_get p ''logId'' cid = Inr lid"
      and ts: "py_get p ''timestamp'' JNull = Inr ts"
      and entry: "entry = JObj [(''logId'', lid), (''choreId'', cid), (''userId'', uid),
                               (''timestamp'', ts)]"
      unfolding new_log_entry_Inr by blast
    from lid ts have vals:
      "lid = (case getitem p ''logId'' of Inl _ \<Rightarrow> cid | Inr v \<Rightarrow> v)"
      "ts = (case getitem p ''timestamp'' of Inl _ \<Rightarrow> JNull | Inr v \<Rightarrow> v)"
      using py_get_dict [OF ids(1)] by simp_all
    with entry have entry': "entry = ?entry cid uid" by simp
    from False f have nohit: "\<forall>l\<in>set ?log. same_pair l p = Inr False"
      using log_exists_FalseD by simp
    from False found have noex: "\<not> (\<exists>l\<in>set ?log. same_pair l p = Inr True)" by simp
    have log': "completedLog (currentWeek d') = ?log @ [entry]" by (simp add: d')
    have same: "same_pair entry p = Inr (cid \<noteq> JFloat FNan \<and> uid \<noteq> JFloat FNan)"
      using same_pair_new_log_entry [OF e ids] .
    have zero: "pair_count ?log p = 0" using nohit by (simp add: pair_count_def)
    have good: "update_weekly_chore d' p = Inr d' \<and>
        pair_count (completedLog (currentWeek d')) p = 1"
      if "cid \<noteq> JFloat FNan \<and> uid \<noteq> JFloat FNan"
    proof -
      from that same have s: "same_pair entry p = Inr True" by simp
      then have "log_exists (?log @ [entry]) p = Inr True"
        using log_exists_append [OF nohit] by simp
      then have "update_weekly_chore d' p = Inr d'"
        by (simp add: d' update_weekly_chore_def m' c t)
      moreover have "pair_count (completedLog (currentWeek d')) p = 1"
        using zero s by (simp add: d' pair_count_def)
      ultimately show ?thesis by simp
    qed
    have bad: "\<exists>d''. update_weekly_chore d' p = Inr d'' \<and>
        completedLog (currentWeek d'') = ?log @ [entry, entry]"
      if "cid = JFloat FNan \<or> uid = JFloat FNan"
    proof -
      from that same have s: "same_pair entry p = Inr False" by auto
      then have "log_exists (?log @ [entry]) p = Inr False"
        using log_exists_append [OF nohit] by simp
      then have "update_weekly_chore d' p =
          Inr (d'\<lparr>currentWeek := (currentWeek d')
                 \<lparr>assignedChores := assigned, completedLog := (?log @ [entry]) @ [entry]\<rparr>\<rparr>)"
        by (simp add: d' update_weekly_chore_def m' c t e)
      then show ?thesis by simp
    qed
    show ?thesis
      by (rule exI [of _ cid], rule exI [of _ uid], rule exI [of _ entry])
         (use ids entry' noex log' good bad in auto)
  qed
qed


theorem update_weekly_chore_logs_pair_once_witness:
  "update_weekly_chore (week_of [chore_row 3 1 False] []) tick_trash =
     Inr (week_of [chore_row 3 1 True] [trash_logged]) \<and>
   getitem tick_trash ''completed'' = Inr (JBool True) \<and> py_eq (JBool True) (JBool True) \<and>
   getitem tick_trash ''choreId'' = Inr (JInt 3) \<and> getitem tick_trash ''userId'' = Inr (JInt 1) \<and>
   completedLog (currentWeek (week_of [chore_row 3 1 True] [trash_logged])) = [trash_logged] \<and>
   update_weekly_chore (week_of [chore_row 3 1 True] [trash_logged]) tick_trash =
     Inr (week_of [chore_row 3 1 True] [trash_logged]) \<and>
   pair_count (completedLog (currentWeek (week_of [chore_row 3 1 True] [trash_logged])))
     tick_trash = 1 \<and>
   update_weekly_chore default_data tick_nan =
     Inr (default_data\<lparr>currentWeek :=
            (currentWeek default_data)\<lparr>completedLog := [nan_logged]\<rparr>\<rparr>) \<and>
   getitem tick_nan ''choreId'' = Inr (JFloat FNan) \<and>
   (\<exists>d''. update_weekly_chore
            (default_data\<lparr>currentWeek :=
               (currentWeek default_data)\<lparr>completedLog := [nan_logged]\<rparr>\<rparr>) tick_nan = Inr d'' \<and>
          completedLog (currentWeek d'') = [nan_logged, nan_logged])"
proof -
  let ?d = "week_of [chore_row 3 1 False] []"
  let ?d' = "week_of [chore_row 3 1 True] [trash_logged]"
  let ?n = "default_data\<lparr>currentWeek :=
      (currentWeek default_data)\<lparr>completedLog := [nan_logged]\<rparr>\<rparr>"
  have run: "update_weekly_chore ?d tick_trash = Inr ?d'"
    by (simp add: sample_defs update_weekly_chore_def same_pair_def new_log_entry_def)
  have c: "getitem tick_trash ''completed'' = Inr (JBool True)"
    by (simp add: tick_trash_def)
  have t: "py_eq (JBool True) (JBool True)" by simp
  have ids: "getitem tick_trash ''choreId'' = Inr (JInt 3)"
    "getitem tick_trash ''userId'' = Inr (JInt 1)"
    by (simp_all add: tick_trash_def)
  have empty: "\<forall>l\<in>set (completedLog (currentWeek ?d)). same_pair l tick_trash \<noteq> Inr True"
    by (simp add: week_of_def)
  from update_weekly_chore_logs_pair_once [of ?d tick_trash] run c t
  obtain cid uid where "getitem tick_trash ''choreId'' = Inr cid"
    "getitem tick_trash ''userId'' = Inr uid"
    and once: "cid \<noteq> JFloat FNan \<and> uid \<noteq> JFloat FNan \<longrightarrow>
      update_weekly_chore ?d' tick_trash = Inr ?d' \<and>
      ((\<forall>l\<in>set (completedLog (currentWeek ?d)). same_pair l tick_trash \<noteq> Inr True) \<longrightarrow>
         pair_count (completedLog (currentWeek ?d')) tick_trash = 1)"
    by blast
  with ids have "cid \<noteq> JFloat FNan \<and> uid \<noteq> JFloat FNan" by simp
  with once empty have again: "update_weekly_chore ?d' tick_trash = Inr ?d'"
    and one: "pair_count (completedLog (currentWeek ?d')) tick_trash = 1"
    by blast+
  have logged: "completedLog (currentWeek ?d') = [trash_logged]"
    by (simp add: week_of_def)
  have nrun: "update_weekly_chore default_data tick_nan = Inr ?n"
    by (simp add: sample_defs update_weekly_chore_def new_log_entry_def)
  have nc: "getitem tick_nan ''completed'' = Inr (JBool True)"
    and nid: "getitem tick_nan ''choreId'' = Inr (JFloat FNan)"
    by (simp_all add: tick_nan_def)
  from update_weekly_chore_logs_pair_once [of default_data tick_nan] nrun nc t
  obtain cid' uid' entry where nid': "getitem tick_nan ''choreId'' = Inr cid'"
    and first: "completedLog (currentWeek ?n) =
        (if \<exists>l\<in>set (completedLog (currentWeek default_data)). same_pair l tick_nan = Inr True
         then completedLog (currentWeek default_data)
         else completedLog (currentWeek default_data) @ [entry])"
    and more: "cid' = JFloat FNan \<or> uid' = JFloat FNan \<longrightarrow>
      completedLog (currentWeek ?n) = completedLog (currentWeek default_data) @ [entry] \<and>
      (\<exists>d''. update_weekly_chore ?n tick_nan = Inr d'' \<and>
         completedLog (currentWeek d'') =
           completedLog (currentWeek default_data) @ [entry, entry])"
    by blast
  from nid nid' have "cid' = JFloat FNan" by simp
  with more have ent: "completedLog (currentWeek ?n) =
      completedLog (currentWeek default_data) @ [entry]"
    and twice: "\<exists>d''. update_weekly_chore ?n tick_nan = Inr d'' \<and>
         completedLog (currentWeek d'') =
           completedLog (currentWeek default_data) @ [entry, entry]"
    by blast+
  from ent have "entry = nan_logged" by (simp add: default_data_def)
  with twice have ntwice: "\<exists>d''. update_weekly_chore ?n tick_nan = Inr d'' \<and>
         completedLog (currentWeek d'') = [nan_logged, nan_logged]"
    by (simp add: default_data_def)
  from run c t ids logged again one nrun nid ntwice show ?thesis by blast
qed

text \<open>
  Exactly one log entry for the pair after two applications does not hold on every
  document and for every payload. \<^verbatim>\<open>log_chore\<close> stores entries without looking for
  the pair, so a log can hold two of them before the chore is ticked off, and both
  stay. And a payload whose \<^verbatim>\<open>choreId\<close> is \<^verbatim>\<open>nan\<close> is logged again by each request, since
  \<^verbatim>\<open>nan == nan\<close> is false.
\<close>

theorem update_weekly_chore_twice_counterexample:
  "add_chore default_data add_trash = Inr (week_of [chore_row 3 1 False] []) \<and>
   log_chore (week_of [chore_row 3 1 False] []) trash_noted =
     Inr (week_of [chore_row 3 1 False] [trash_noted]) \<and>
   log_chore (week_of [chore_row 3 1 False] [trash_noted]) trash_noted =
     Inr (week_of [chore_row 3 1 False] [trash_noted, trash_noted]) \<and>
   update_weekly_chore (week_of [chore_row 3 1 False] [trash_noted, trash_noted]) tick_trash =
     Inr (week_of [chore_row 3 1 True] [trash_noted, trash_noted]) \<and>
   update_weekly_chore (week_of [chore_row 3 1 True] [trash_noted, trash_noted]) tick_trash =
     Inr (week_of [chore_row 3 1 True] [trash_noted, trash_noted]) \<and>
   pair_count
     (completedLog (currentWeek (week_of [chore_row 3 1 True] [trash_noted, trash_noted])))
     tick_trash = 2 \<and>
   update_weekly_chore default_data tick_nan =
     Inr (default_data\<lparr>currentWeek :=
            (currentWeek default_data)\<lparr>completedLog := [nan_logged]\<rparr>\<rparr>) \<and>
   update_weekly_chore
     (default_data\<lparr>currentWeek :=
        (currentWeek default_data)\<lparr>completedLog := [nan_logged]\<rparr>\<rparr>) tick_nan =
     Inr (default_data\<lparr>currentWeek :=
            (currentWeek default_data)\<lparr>completedLog := [nan_logged, nan_logged]\<rparr>\<rparr>)"
  by (simp add: sample_defs add_chore_def log_chore_def update_weekly_chore_def same_pair_def
      new_log_entry_def pair_count_def)

section \<open>\<^verbatim>\<open>update_weekly_chore\<close>: unticking a chore\<close>

text \<open>
  C6. On well-formed input the endpoint returns a document. Whenever it returns a
  document for a payload whose \<^verbatim>\<open>completed\<close> equals \<^verbatim>\<open>false\<close>, the new log is the old one
  without the entries that have the payload's pair, the others in their old order,
  and no entry of the new log has the pair.
\<close>

theorem update_weekly_chore_unlogs_pair:
  "((\<forall>c\<in>set (assignedChores (currentWeek d)).
       has_key c ''choreId'' \<and> has_key c ''userId'') \<and>
    (\<forall>l\<in>set (completedLog (currentWeek d)).
       has_key l ''choreId'' \<and> has_key l ''userId'') \<and>
    has_key p ''choreId'' \<and> has_key p ''userId'' \<and> has_key p ''completed''
    \<longrightarrow> (\<exists>d'. update_weekly_chore d p = Inr d')) \<and>
   (\<forall>d' c. update_weekly_chore d p = Inr d' \<and>
       getitem p ''completed'' = Inr c \<and> py_eq c (JBool False) \<longrightarrow>
      completedLog (currentWeek d') =
        filter (\<lambda>l. same_pair l p \<noteq> Inr True) (completedLog (currentWeek d)) \<and>
      (\<forall>l\<in>set (completedLog (currentWeek d')). same_pair l p \<noteq> Inr True) \<and>
      pair_count (completedLog (currentWeek d')) p = 0)"
proof (intro conjI allI impI)
  assume "(\<forall>c\<in>set (assignedChores (currentWeek d)).
       has_key c ''choreId'' \<and> has_key c ''userId'') \<and>
    (\<forall>l\<in>set (completedLog (currentWeek d)).
       has_key l ''choreId'' \<and> has_key l ''userId'') \<and>
    has_key p ''choreId'' \<and> has_key p ''userId'' \<and> has_key p ''completed''"
  then show "\<exists>d'. update_weekly_chore d p = Inr d'"
    using update_weekly_chore_total by blast
next
  fix d' c
  assume asm: "update_weekly_chore d p = Inr d' \<and>
       getitem p ''completed'' = Inr c \<and> py_eq c (JBool False)"
  then have c: "getitem p ''completed'' = Inr c" and f: "\<not> truthy c"
    by (simp_all add: py_eq_False_falsy)
  from asm c f obtain log' where
    u: "unlog (completedLog (currentWeek d)) p = Inr log'"
    and l: "completedLog (currentWeek d') = log'"
    by (auto simp: update_weekly_chore_Inr)
  from unlog_Inr [OF u] l
  show eq: "completedLog (currentWeek d') =
        filter (\<lambda>l. same_pair l p \<noteq> Inr True) (completedLog (currentWeek d))"
    by simp
  then show none: "\<forall>l\<in>set (completedLog (currentWeek d')). same_pair l p \<noteq> Inr True"
    by simp
  then show "pair_count (completedLog (currentWeek d')) p = 0"
    by (rule pair_count_none)
qed

theorem update_weekly_chore_unlogs_pair_witness:
  "update_weekly_chore
     (week_of [chore_row 3 1 True] [trash_noted, JObj [(''choreId'', JInt 1), (''userId'', JInt 2)],
        trash_logged, JObj [(''choreId'', JInt 3), (''userId'', JInt 2)]]) untick_trash =
   Inr (week_of [chore_row 3 1 False]
     [JObj [(''choreId'', JInt 1), (''userId'', JInt 2)],
      JObj [(''choreId'', JInt 3), (''userId'', JInt 2)]]) \<and>
   getitem untick_trash ''completed'' = Inr (JBool False) \<and> py_eq (JBool False) (JBool False) \<and>
   completedLog (currentWeek (week_of [chore_row 3 1 False]
     [JObj [(''choreId'', JInt 1), (''userId'', JInt 2)],
      JObj [(''choreId'', JInt 3), (''userId'', JInt 2)]])) =
     [JObj [(''choreId'', JInt 1), (''userId'', JInt 2)],
      JObj [(''choreId'', JInt 3), (''userId'', JInt 2)]] \<and>
   pair_count (completedLog (currentWeek (week_of [chore_row 3 1 False]
     [JObj [(''choreId'', JInt 1), (''userId'', JInt 2)],
      JObj [(''choreId'', JInt 3), (''userId'', JInt 2)]]))) untick_trash = 0"
proof -
  let ?d = "week_of [chore_row 3 1 True]
     [trash_noted, JObj [(''choreId'', JInt 1), (''userId'', JInt 2)],
      trash_logged, JObj [(''choreId'', JInt 3), (''userId'', JInt 2)]]"
  let ?d' = "week_of [chore_row 3 1 False]
     [JObj [(''choreId'', JInt 1), (''userId'', JInt 2)],
      JObj [(''choreId'', JInt 3), (''userId'', JInt 2)]]"
  have run: "update_weekly_chore ?d untick_trash = Inr ?d'"
    by (simp add: sample_defs update_weekly_chore_def same_pair_def)
  have c: "getitem untick_trash ''completed'' = Inr (JBool False)"
    by (simp add: untick_trash_def)
  have f: "py_eq (JBool False) (JBool False)" by simp
  from update_weekly_chore_unlogs_pair [of ?d untick_trash] run c f
  have "pair_count (completedLog (currentWeek ?d')) untick_trash = 0"
    by blast
  moreover have "completedLog (currentWeek ?d') =
     [JObj [(''choreId'', JInt 1), (''userId'', JInt 2)],
      JObj [(''choreId'', JInt 3), (''userId'', JInt 2)]]"
    by (simp add: week_of_def)
  ultimately show ?thesis using run c f by blast
qed

section \<open>\<^verbatim>\<open>update_weekly_chore\<close>: payloads with keys missing\<close>

text \<open>
  C9, as amended. On every document: a payload without \<^verbatim>\<open>completed\<close> raises; a payload
  without \<^verbatim>\<open>choreId\<close> or without \<^verbatim>\<open>userId\<close> raises when its \<^verbatim>\<open>completed\<close> is true in an
  \<^verbatim>\<open>if\<close>; when its \<^verbatim>\<open>completed\<close> is false there, it raises unless the pair test comes out
  false on every assigned chore and every log entry, and then the document is
  returned as it was. For a payload without \<^verbatim>\<open>choreId\<close> and with a false \<^verbatim>\<open>completed\<close>
  that means: it raises exactly when there is an assigned chore or a log entry. When
  the payload and all the entries are dictionaries, the exception raised is a
  \<^verbatim>\<open>KeyError\<close>.
\<close>

theorem update_weekly_chore_missing_keys:
  "(\<not> has_key p ''completed'' \<longrightarrow> (\<exists>e. update_weekly_chore d p = Inl e)) \<and>
   (\<forall>c. (\<not> has_key p ''choreId'' \<or> \<not> has_key p ''userId'') \<and>
        getitem p ''completed'' = Inr c \<longrightarrow>
      (if truthy c then \<exists>e. update_weekly_chore d p = Inl e
       else if \<forall>e\<in>set (assignedChores (currentWeek d) @ completedLog (currentWeek d)).
                 same_pair e p = Inr False
            then update_weekly_chore d p = Inr d
            else \<exists>e. update_weekly_chore d p = Inl e)) \<and>
   (\<forall>c. \<not> has_key p ''choreId'' \<and> getitem p ''completed'' = Inr c \<and> \<not> truthy c \<longrightarrow>
      ((\<exists>e. update_weekly_chore d p = Inl e) \<longleftrightarrow>
       assignedChores (currentWeek d) \<noteq> [] \<or> completedLog (currentWeek d) \<noteq> [])) \<and>
   ((\<forall>c\<in>set (assignedChores (currentWeek d)). is_dict c) \<and>
    (\<forall>l\<in>set (completedLog (currentWeek d)). is_dict l) \<and> is_dict p \<longrightarrow>
      (\<forall>e. update_weekly_chore d p = Inl e \<longrightarrow> (\<exists>k. e = KeyError k)))"
proof (intro conjI allI impI)
  assume "\<not> has_key p ''completed''"
  then show "\<exists>e. update_weekly_chore d p = Inl e"
    by (rule update_weekly_chore_no_completed)
next
  fix c
  assume a: "(\<not> has_key p ''choreId'' \<or> \<not> has_key p ''userId'') \<and>
        getitem p ''completed'' = Inr c"
  show "if truthy c then \<exists>e. update_weekly_chore d p = Inl e
       else if \<forall>e\<in>set (assignedChores (currentWeek d) @ completedLog (currentWeek d)).
                 same_pair e p = Inr False
            then update_weekly_chore d p = Inr d
            else \<exists>e. update_weekly_chore d p = Inl e"
  proof (cases "truthy c")
    case True
    with a have "\<exists>e. update_weekly_chore d p = Inl e"
      using update_weekly_chore_truthy_no_ids by blast
    then show ?thesis unfolding if_P [OF True] .
  next
    case False
    with a show ?thesis
      unfolding if_not_P [OF False] using update_weekly_chore_falsy_no_ids by blast
  qed
next
  fix c
  assume a: "\<not> has_key p ''choreId'' \<and> getitem p ''completed'' = Inr c \<and> \<not> truthy c"
  let ?es = "assignedChores (currentWeek d) @ completedLog (currentWeek d)"
  from a have split: "if \<forall>e\<in>set ?es. same_pair e p = Inr False
         then update_weekly_chore d p = Inr d
         else \<exists>e. update_weekly_chore d p = Inl e"
    using update_weekly_chore_falsy_no_ids [of p c d] by blast
  have never: "same_pair e p \<noteq> Inr False" for e
    using same_pair_no_choreId [of p e] a by auto
  show "(\<exists>e. update_weekly_chore d p = Inl e) \<longleftrightarrow>
       assignedChores (currentWeek d) \<noteq> [] \<or> completedLog (currentWeek d) \<noteq> []"
  proof (cases "?es = []")
    case True
    then have "\<forall>e\<in>set ?es. same_pair e p = Inr False" by simp
    with split have "update_weekly_chore d p = Inr d" by (simp only: if_True)
    with True show ?thesis by simp
  next
    case False
    then obtain e where "e \<in> set ?es" by (cases ?es) auto
    with never have "\<not> (\<forall>e\<in>set ?es. same_pair e p = Inr False)" by blast
    with split have "\<exists>e. update_weekly_chore d p = Inl e" by (simp only: if_False)
    with False show ?thesis by simp
  qed
next
  fix e
  assume "(\<forall>c\<in>set (assignedChores (currentWeek d)). is_dict c) \<and>
    (\<forall>l\<in>set (completedLog (currentWeek d)). is_dict l) \<and> is_dict p"
    and "update_weekly_chore d p = Inl e"
  then show "\<exists>k. e = KeyError k"
    using update_weekly_chore_dict_err by blast
qed

theorem update_weekly_chore_missing_keys_witness:
  "\<not> has_key (JObj [(''choreId'', JInt 3), (''userId'', JInt 1)]) ''completed'' \<and>
   (\<exists>k. update_weekly_chore (week_of [chore_row 3 1 False] [])
     (JObj [(''choreId'', JInt 3), (''userId'', JInt 1)]) = Inl (KeyError k)) \<and>
   update_weekly_chore (week_of [chore_row 3 1 False] [])
     (JObj [(''choreId'', JInt 3), (''userId'', JInt 1)]) = Inl (KeyError ''completed'') \<and>
   \<not> has_key (JObj [(''userId'', JInt 1), (''completed'', JBool True)]) ''choreId'' \<and>
   truthy (JBool True) \<and>
   (\<exists>e. update_weekly_chore default_data
     (JObj [(''userId'', JInt 1), (''completed'', JBool True)]) = Inl e) \<and>
   update_weekly_chore default_data
     (JObj [(''userId'', JInt 1), (''completed'', JBool True)]) = Inl (KeyError ''choreId'') \<and>
   \<not> has_key (JObj [(''userId'', JInt 1), (''completed'', JBool False)]) ''choreId'' \<and>
   \<not> truthy (JBool False) \<and>
   update_weekly_chore default_data
     (JObj [(''userId'', JInt 1), (''completed'', JBool False)]) = Inr default_data \<and>
   update_weekly_chore (week_of [chore_row 3 1 False] [])
     (JObj [(''userId'', JInt 1), (''completed'', JBool False)]) = Inl (KeyError ''choreId'')"
proof -
  let ?d = "week_of [chore_row 3 1 False] []"
  let ?p1 = "JObj [(''choreId'', JInt 3), (''userId'', JInt 1)]"
  let ?p2 = "JObj [(''userId'', JInt 1), (''completed'', JBool True)]"
  let ?p3 = "JObj [(''userId'', JInt 1), (''completed'', JBool False)]"
  have k1: "\<not> has_key ?p1 ''completed''" by simp
  have dicts: "(\<forall>c\<in>set (assignedChores (currentWeek ?d)). is_dict c) \<and>
    (\<forall>l\<in>set (completedLog (currentWeek ?d)). is_dict l) \<and> is_dict ?p1"
    by (simp add: sample_defs)
  from update_weekly_chore_missing_keys [of ?p1 ?d] k1 dicts
  have t1: "\<exists>k. update_weekly_chore ?d ?p1 = Inl (KeyError k)" by blast
  have r1: "update_weekly_chore ?d ?p1 = Inl (KeyError ''completed'')"
    by (simp add: sample_defs update_weekly_chore_def same_pair_def)
  have k2: "\<not> has_key ?p2 ''choreId''" "getitem ?p2 ''completed'' = Inr (JBool True)"
    by simp_all
  from update_weekly_chore_missing_keys [of ?p2 default_data] k2
  have t2: "\<exists>e. update_weekly_chore default_data ?p2 = Inl e"
    by (metis truthy.simps(2))
  have r2: "update_weekly_chore default_data ?p2 = Inl (KeyError ''choreId'')"
    by (simp add: sample_defs update_weekly_chore_def new_log_entry_def)
  have k3: "\<not> has_key ?p3 ''choreId''" "getitem ?p3 ''completed'' = Inr (JBool False)"
    by simp_all
  have empty: "\<forall>e\<in>set (assignedChores (currentWeek default_data) @
      completedLog (currentWeek default_data)). same_pair e ?p3 = Inr False"
    by (simp add: default_data_def)
  from update_weekly_chore_missing_keys [of ?p3 default_data] k3
  have "if truthy (JBool False) then \<exists>e. update_weekly_chore default_data ?p3 = Inl e
       else if \<forall>e\<in>set (assignedChores (currentWeek default_data) @
                 completedLog (currentWeek default_data)). same_pair e ?p3 = Inr False
            then update_weekly_chore default_data ?p3 = Inr default_data
            else \<exists>e. update_weekly_chore default_data ?p3 = Inl e"
    by blast
  with empty have r3: "update_weekly_chore default_data ?p3 = Inr default_data"
    by (simp del: set_append)
  have r4: "update_weekly_chore ?d ?p3 = Inl (KeyError ''choreId'')"
    by (simp add: sample_defs update_weekly_chore_def same_pair_def)
  from k1 t1 r1 k2(1) t2 r2 k3(1) r3 r4 show ?thesis by simp
qed

text \<open>
  The keys are read only where the loops and the log need them: on the fresh
  document, with nothing assigned and nothing logged, a payload that has only a false
  \<^verbatim>\<open>completed\<close> is accepted.
\<close>

theorem update_weekly_chore_missing_keys_counterexample:
  "\<not> has_key (JObj [(''completed'', JBool False)]) ''choreId'' \<and>
   \<not> has_key (JObj [(''completed'', JBool False)]) ''userId'' \<and>
   update_weekly_chore default_data (JObj [(''completed'', JBool False)]) = Inr default_data"
  by (simp add: default_data_def update_weekly_chore_def)

section \<open>\<^verbatim>\<open>delete_chore\<close>\<close>

text \<open>
  C2. When the payload has \<^verbatim>\<open>choreId\<close>, every master chore has \<^verbatim>\<open>id\<close> and every assigned
  chore and log entry has \<^verbatim>\<open>choreId\<close>, the endpoint returns a document. Whenever it
  returns a document: the master chores are the old ones whose \<^verbatim>\<open>id\<close> differs from the
  payload's \<^verbatim>\<open>choreId\<close>, the assigned chores and the log are the old ones whose
  \<^verbatim>\<open>choreId\<close> differs from it, each as a filter of the old list and so in the old order,
  and the users, the prize and everything else in the document are as before.
\<close>

theorem delete_chore_filters:
  "(has_key p ''choreId'' \<and>
    (\<forall>c\<in>set (masterChores d). has_key c ''id'') \<and>
    (\<forall>c\<in>set (assignedChores (currentWeek d)). has_key c ''choreId'') \<and>
    (\<forall>l\<in>set (completedLog (currentWeek d)). has_key l ''choreId'')
    \<longrightarrow> (\<exists>d'. delete_chore d p = Inr d')) \<and>
   (\<forall>d'. delete_chore d p = Inr d' \<longrightarrow>
      (\<exists>cid. getitem p ''choreId'' = Inr cid \<and>
         masterChores d' = filter (\<lambda>c. differs ''id'' cid c = Inr True) (masterChores d) \<and>
         assignedChores (currentWeek d') =
           filter (\<lambda>c. differs ''choreId'' cid c = Inr True)
             (assignedChores (currentWeek d)) \<and>
         completedLog (currentWeek d') =
           filter (\<lambda>l. differs ''choreId'' cid l = Inr True)
             (completedLog (currentWeek d))) \<and>
      users d' = users d \<and>
      prize (currentWeek d') = prize (currentWeek d) \<and>
      d' = d\<lparr>masterChores := masterChores d',
             currentWeek := (currentWeek d)
               \<lparr>assignedChores := assignedChores (currentWeek d'),
                completedLog := completedLog (currentWeek d')\<rparr>\<rparr>)"
proof (intro conjI allI impI)
  assume "has_key p ''choreId'' \<and>
    (\<forall>c\<in>set (masterChores d). has_key c ''id'') \<and>
    (\<forall>c\<in>set (assignedChores (currentWeek d)). has_key c ''choreId'') \<and>
    (\<forall>l\<in>set (completedLog (currentWeek d)). has_key l ''choreId'')"
  then show "\<exists>d'. delete_chore d p = Inr d'"
    unfolding delete_chore_Inr_iff has_key_iff [of p] by blast
next
  fix d'
  assume run: "delete_chore d p = Inr d'"
  then obtain cid where cid: "getitem p ''choreId'' = Inr cid"
    and d': "d' = d\<lparr>masterChores := filter (\<lambda>c. differs ''id'' cid c = Inr True) (masterChores d),
             currentWeek := (currentWeek d)
               \<lparr>assignedChores :=
                  filter (\<lambda>c. differs ''choreId'' cid c = Inr True)
                    (assignedChores (currentWeek d)),
                completedLog :=
                  filter (\<lambda>l. differs ''choreId'' cid l = Inr True)
                    (completedLog (currentWeek d))\<rparr>\<rparr>"
    unfolding delete_chore_Inr_iff by blast
  from cid d' show "\<exists>cid. getitem p ''choreId'' = Inr cid \<and>
         masterChores d' = filter (\<lambda>c. differs ''id'' cid c = Inr True) (masterChores d) \<and>
         assignedChores (currentWeek d') =
           filter (\<lambda>c. differs ''choreId'' cid c = Inr True)
             (assignedChores (currentWeek d)) \<and>
         completedLog (currentWeek d') =
           filter (\<lambda>l. differs ''choreId'' cid l = Inr True)
             (completedLog (currentWeek d))"
    by simp
  from d' show "users d' = users d" by simp
  from d' show "prize (currentWeek d') = prize (currentWeek d)" by simp
  from d' show "d' = d\<lparr>masterChores := masterChores d',
             currentWeek := (currentWeek d)
               \<lparr>assignedChores := assignedChores (currentWeek d'),
                completedLog := completedLog (currentWeek d')\<rparr>\<rparr>"
    by simp
qed

theorem delete_chore_filters_witness:
  "delete_chore
     (week_of [chore_row 1 2 False, chore_row 3 1 True, chore_row 2 2 True, chore_row 3 2 False]
        [trash_noted, JObj [(''choreId'', JInt 1), (''userId'', JInt 2)], trash_logged])
     delete_trash =
   Inr (default_data\<lparr>currentWeek := (currentWeek default_data)
          \<lparr>assignedChores := [chore_row 1 2 False, chore_row 2 2 True],
           completedLog := [JObj [(''choreId'', JInt 1), (''userId'', JInt 2)]]\<rparr>\<rparr>) \<and>
   masterChores (default_data\<lparr>currentWeek := (currentWeek default_data)
          \<lparr>assignedChores := [chore_row 1 2 False, chore_row 2 2 True],
           completedLog := [JObj [(''choreId'', JInt 1), (''userId'', JInt 2)]]\<rparr>\<rparr>) =
     filter (\<lambda>c. differs ''id'' (JInt 3) c = Inr True)
       (masterChores default_data @ [trash_master]) \<and>
   users (default_data\<lparr>currentWeek := (currentWeek default_data)
          \<lparr>assignedChores := [chore_row 1 2 False, chore_row 2 2 True],
           completedLog := [JObj [(''choreId'', JInt 1), (''userId'', JInt 2)]]\<rparr>\<rparr>) =
     users default_data"
proof -
  let ?d = "week_of [chore_row 1 2 False, chore_row 3 1 True, chore_row 2 2 True, chore_row 3 2 False]
        [trash_noted, JObj [(''choreId'', JInt 1), (''userId'', JInt 2)], trash_logged]"
  let ?d' = "default_data\<lparr>currentWeek := (currentWeek default_data)
          \<lparr>assignedChores := [chore_row 1 2 False, chore_row 2 2 True],
           completedLog := [JObj [(''choreId'', JInt 1), (''userId'', JInt 2)]]\<rparr>\<rparr>"
  have run: "delete_chore ?d delete_trash = Inr ?d'"
    by (simp add: sample_defs delete_chore_def differs_def)
  have cid: "getitem delete_trash ''choreId'' = Inr (JInt 3)"
    by (simp add: delete_trash_def)
  from delete_chore_filters [of delete_trash ?d] run cid
  have "masterChores ?d' = filter (\<lambda>c. differs ''id'' (JInt 3) c = Inr True) (masterChores ?d)"
    and "users ?d' = users ?d"
    by auto
  then have "masterChores ?d' =
      filter (\<lambda>c. differs ''id'' (JInt 3) c = Inr True) (masterChores default_data @ [trash_master])"
    and "users ?d' = users default_data"
    by (simp_all add: week_of_def)
  with run show ?thesis by blast
qed

text \<open>
  C5. Deleting the same chore twice gives what deleting it once gives: the same
  document, or the same exception. When every master chore, assigned chore and log
  entry has an id that differs from the payload's \<^verbatim>\<open>choreId\<close>, the document returned is
  the document given.
\<close>

theorem delete_chore_idempotent:
  "bind_err (delete_chore d p) (\<lambda>d'. delete_chore d' p) = delete_chore d p \<and>
   (\<forall>d'. delete_chore d p = Inr d' \<longrightarrow> delete_chore d' p = Inr d') \<and>
   (\<forall>cid. getitem p ''choreId'' = Inr cid \<and>
      (\<forall>c\<in>set (masterChores d). differs ''id'' cid c = Inr True) \<and>
      (\<forall>c\<in>set (assignedChores (currentWeek d)). differs ''choreId'' cid c = Inr True) \<and>
      (\<forall>l\<in>set (completedLog (currentWeek d)). differs ''choreId'' cid l = Inr True)
      \<longrightarrow> delete_chore d p = Inr d)"
proof (intro conjI allI impI)
  show "bind_err (delete_chore d p) (\<lambda>d'. delete_chore d' p) = delete_chore d p"
    by (cases "delete_chore d p") (simp_all add: delete_chore_idem)
next
  fix d'
  assume "delete_chore d p = Inr d'"
  then show "delete_chore d' p = Inr d'" by (rule delete_chore_idem)
next
  fix cid
  assume a: "getitem p ''choreId'' = Inr cid \<and>
      (\<forall>c\<in>set (masterChores d). differs ''id'' cid c = Inr True) \<and>
      (\<forall>c\<in>set (assignedChores (currentWeek d)). differs ''choreId'' cid c = Inr True) \<and>
      (\<forall>l\<in>set (completedLog (currentWeek d)). differs ''choreId'' cid l = Inr True)"
  then have "keep_others ''id'' cid (masterChores d) = Inr (masterChores d)"
    "keep_others ''choreId'' cid (assignedChores (currentWeek d)) =
       Inr (assignedChores (currentWeek d))"
    "keep_others ''choreId'' cid (completedLog (currentWeek d)) =
       Inr (completedLog (currentWeek d))"
    by (simp_all add: keep_others_absent)
  with a show "delete_chore d p = Inr d"
    by (simp add: delete_chore_def)
qed

theorem delete_chore_idempotent_witness:
  "delete_chore (week_of [chore_row 3 1 True] [trash_logged]) delete_trash = Inr default_data \<and>
   delete_chore default_data delete_trash = Inr default_data \<and>
   bind_err (delete_chore (week_of [chore_row 3 1 True] [trash_logged]) delete_trash)
     (\<lambda>d'. delete_chore d' delete_trash) =
   delete_chore (week_of [chore_row 3 1 True] [trash_logged]) delete_trash \<and>
   getitem delete_trash ''choreId'' = Inr (JInt 3)"
proof -
  let ?d = "week_of [chore_row 3 1 True] [trash_logged]"
  have run: "delete_chore ?d delete_trash = Inr default_data"
    by (simp add: sample_defs delete_chore_def differs_def)
  have cid: "getitem delete_trash ''choreId'' = Inr (JInt 3)"
    by (simp add: delete_trash_def)
  from delete_chore_idempotent [of ?d delete_trash] run
  have again: "delete_chore default_data delete_trash = Inr default_data"
    and twice: "bind_err (delete_chore ?d delete_trash) (\<lambda>d'. delete_chore d' delete_trash) =
      delete_chore ?d delete_trash"
    by blast+
  have absent: "(\<forall>c\<in>set (masterChores default_data). differs ''id'' (JInt 3) c = Inr True) \<and>
      (\<forall>c\<in>set (assignedChores (currentWeek default_data)).
         differs ''choreId'' (JInt 3) c = Inr True) \<and>
      (\<forall>l\<in>set (completedLog (currentWeek default_data)).
         differs ''choreId'' (JInt 3) l = Inr True)"
    by (simp add: default_data_def differs_def)
  from delete_chore_idempotent [of default_data delete_trash] cid absent
  have "delete_chore default_data delete_trash = Inr default_data" by blast
  with run twice cid show ?thesis by blast
qed

text \<open>
  C10. \<^verbatim>\<open>delete_chore\<close> returns a document only when every log entry has the key
  \<^verbatim>\<open>choreId\<close>; with a log entry that lacks it, it raises, whatever the payload. Such a
  document is reachable: \<^verbatim>\<open>log_chore\<close> stores the empty object on the fresh document,
  and from then on \<^verbatim>\<open>delete_chore\<close> raises for every payload, a \<^verbatim>\<open>KeyError\<close> for
  \<^verbatim>\<open>choreId\<close> when the payload names a chore.
\<close>

theorem delete_chore_faults_on_logged_payload:
  "(\<forall>d'. delete_chore d p = Inr d' \<longrightarrow>
      (\<forall>l\<in>set (completedLog (currentWeek d)). has_key l ''choreId'')) \<and>
   ((\<exists>l\<in>set (completedLog (currentWeek d)). \<not> has_key l ''choreId'') \<longrightarrow>
      (\<exists>e. delete_chore d p = Inl e)) \<and>
   (\<exists>d0. log_chore default_data (JObj []) = Inr d0 \<and> reachable d0 \<and>
      (\<forall>q. \<exists>e. delete_chore d0 q = Inl e) \<and>
      (\<forall>q. has_key q ''choreId'' \<longrightarrow> delete_chore d0 q = Inl (KeyError ''choreId'')))"
proof (intro conjI)
  show total: "\<forall>d'. delete_chore d p = Inr d' \<longrightarrow>
      (\<forall>l\<in>set (completedLog (currentWeek d)). has_key l ''choreId'')"
    unfolding delete_chore_Inr_iff by blast
  show "(\<exists>l\<in>set (completedLog (currentWeek d)). \<not> has_key l ''choreId'') \<longrightarrow>
      (\<exists>e. delete_chore d p = Inl e)"
  proof
    assume "\<exists>l\<in>set (completedLog (currentWeek d)). \<not> has_key l ''choreId''"
    with total have "delete_chore d p \<noteq> Inr d'" for d' by blast
    then show "\<exists>e. delete_chore d p = Inl e" by (rule sum_cases_err)
  qed
  let ?d0 = "default_data\<lparr>currentWeek :=
      (currentWeek default_data)\<lparr>completedLog := [JObj []]\<rparr>\<rparr>"
  have step: "log_chore default_data (JObj []) = Inr ?d0"
    by (simp add: log_chore_def default_data_def)
  have reach: "reachable ?d0"
    using reachable.log [OF reachable.start step] .
  have key: "delete_chore ?d0 q = Inl (KeyError ''choreId'')" if "has_key q ''choreId''" for q
  proof -
    from that obtain cid where "getitem q ''choreId'' = Inr cid"
      by (auto simp: has_key_iff)
    then show ?thesis
      by (simp add: delete_chore_def default_data_def differs_def)
  qed
  have any: "\<exists>e. delete_chore ?d0 q = Inl e" for q
  proof (cases "has_key q ''choreId''")
    case True
    then show ?thesis using key by blast
  next
    case False
    then obtain e where "getitem q ''choreId'' = Inl e"
      by (cases "getitem q ''choreId''") (auto simp: has_key_iff)
    then show ?thesis by (simp add: delete_chore_def)
  qed
  from step reach key any
  show "\<exists>d0. log_chore default_data (JObj []) = Inr d0 \<and> reachable d0 \<and>
      (\<forall>q. \<exists>e. delete_chore d0 q = Inl e) \<and>
      (\<forall>q. has_key q ''choreId'' \<longrightarrow> delete_chore d0 q = Inl (KeyError ''choreId''))"
    by blast
qed

theorem delete_chore_faults_on_logged_payload_witness:
  "log_chore (week_of [chore_row 3 1 True] [trash_logged]) (JObj [(''note'', JStr ''swept'')]) =
     Inr (week_of [chore_row 3 1 True] [trash_logged, JObj [(''note'', JStr ''swept'')]]) \<and>
   \<not> has_key (JObj [(''note'', JStr ''swept'')]) ''choreId'' \<and>
   (\<exists>e. delete_chore
      (week_of [chore_row 3 1 True] [trash_logged, JObj [(''note'', JStr ''swept'')]])
      delete_trash = Inl e) \<and>
   delete_chore (week_of [chore_row 3 1 True] [trash_logged, JObj [(''note'', JStr ''swept'')]])
      delete_trash = Inl (KeyError ''choreId'')"
proof -
  let ?d = "week_of [chore_row 3 1 True] [trash_logged, JObj [(''note'', JStr ''swept'')]]"
  have step: "log_chore (week_of [chore_row 3 1 True] [trash_logged])
      (JObj [(''note'', JStr ''swept'')]) = Inr ?d"
    by (simp add: log_chore_def week_of_def)
  have nokey: "\<not> has_key (JObj [(''note'', JStr ''swept'')]) ''choreId''" by simp
  then have "\<exists>l\<in>set (completedLog (currentWeek ?d)). \<not> has_key l ''choreId''"
    by (simp add: week_of_def)
  with delete_chore_faults_on_logged_payload [of ?d delete_trash]
  have fault: "\<exists>e. delete_chore ?d delete_trash = Inl e" by blast
  have "delete_chore ?d delete_trash = Inl (KeyError ''choreId'')"
    by (simp add: sample_defs delete_chore_def differs_def)
  with step nokey fault show ?thesis by blast
qed

section \<open>\<^verbatim>\<open>reset_week\<close>\<close>

text \<open>
  C3. When the payload has \<^verbatim>\<open>prize\<close> and every assigned chore is a dictionary, the
  endpoint returns a document. Whenever it returns a document: the prize is the
  payload's, the log is empty, the assigned chores are the old ones, one for one and
  in the old order, each with \<^verbatim>\<open>completed\<close> set to \<^verbatim>\<open>false\<close> and every other key as it
  was, and the master chores and the users are unchanged.
\<close>

theorem reset_week_clears_week:
  "(has_key p ''prize'' \<and> (\<forall>c\<in>set (assignedChores (currentWeek d)). is_dict c)
    \<longrightarrow> (\<exists>d'. reset_week d p = Inr d')) \<and>
   (\<forall>d'. reset_week d p = Inr d' \<longrightarrow>
      getitem p ''prize'' = Inr (prize (currentWeek d')) \<and>
      completedLog (currentWeek d') = [] \<and>
      list_all2
        (\<lambda>c c'. setitem c ''completed'' (JBool False) = Inr c' \<and>
           getitem c' ''completed'' = Inr (JBool False) \<and>
           (\<forall>k. k \<noteq> ''completed'' \<longrightarrow> getitem c' k = getitem c k))
        (assignedChores (currentWeek d)) (assignedChores (currentWeek d')) \<and>
      length (assignedChores (currentWeek d')) = length (assignedChores (currentWeek d)) \<and>
      masterChores d' = masterChores d \<and>
      users d' = users d)"
proof (intro conjI allI impI)
  assume a: "has_key p ''prize'' \<and> (\<forall>c\<in>set (assignedChores (currentWeek d)). is_dict c)"
  then obtain v where "getitem p ''prize'' = Inr v" by (auto simp: has_key_iff)
  moreover from a obtain r where "uncomplete_all (assignedChores (currentWeek d)) = Inr r"
    using uncomplete_all_total by blast
  ultimately show "\<exists>d'. reset_week d p = Inr d'"
    unfolding reset_week_Inr_iff by blast
next
  fix d'
  assume "reset_week d p = Inr d'"
  then obtain v assigned where v: "getitem p ''prize'' = Inr v"
    and u: "uncomplete_all (assignedChores (currentWeek d)) = Inr assigned"
    and d': "d' = d\<lparr>currentWeek := (currentWeek d)
             \<lparr>prize := v, assignedChores := assigned, completedLog := []\<rparr>\<rparr>"
    unfolding reset_week_Inr_iff by blast
  from v d' show "getitem p ''prize'' = Inr (prize (currentWeek d'))" by simp
  from d' show "completedLog (currentWeek d') = []" by simp
  from d' show "masterChores d' = masterChores d" by simp
  from d' show "users d' = users d" by simp
  have "list_all2
        (\<lambda>c c'. setitem c ''completed'' (JBool False) = Inr c' \<and>
           getitem c' ''completed'' = Inr (JBool False) \<and>
           (\<forall>k. k \<noteq> ''completed'' \<longrightarrow> getitem c' k = getitem c k))
        (assignedChores (currentWeek d)) assigned"
    using uncomplete_all_Inr [OF u]
    by (rule list_all2_mono) (simp add: setitem_getitem)
  with d' show all: "list_all2
        (\<lambda>c c'. setitem c ''completed'' (JBool False) = Inr c' \<and>
           getitem c' ''completed'' = Inr (JBool False) \<and>
           (\<forall>k. k \<noteq> ''completed'' \<longrightarrow> getitem c' k = getitem c k))
        (assignedChores (currentWeek d)) (assignedChores (currentWeek d'))"
    by simp
  then show "length (assignedChores (currentWeek d')) = length (assignedChores (currentWeek d))"
    by (simp add: list_all2_lengthD)
qed

theorem reset_week_clears_week_witness:
  "reset_week (week_of [chore_row 3 1 True, chore_row 2 2 False] [trash_logged, trash_noted])
     (JObj [(''prize'', JStr ''Ice cream'')]) =
   Inr ((week_of [chore_row 3 1 False, chore_row 2 2 False] [])
          \<lparr>currentWeek := (currentWeek (week_of [chore_row 3 1 False, chore_row 2 2 False] []))
             \<lparr>prize := JStr ''Ice cream''\<rparr>\<rparr>) \<and>
   has_key (JObj [(''prize'', JStr ''Ice cream'')]) ''prize'' \<and>
   completedLog (currentWeek ((week_of [chore_row 3 1 False, chore_row 2 2 False] [])
          \<lparr>currentWeek := (currentWeek (week_of [chore_row 3 1 False, chore_row 2 2 False] []))
             \<lparr>prize := JStr ''Ice cream''\<rparr>\<rparr>)) = [] \<and>
   masterChores ((week_of [chore_row 3 1 False, chore_row 2 2 False] [])
          \<lparr>currentWeek := (currentWeek (week_of [chore_row 3 1 False, chore_row 2 2 False] []))
             \<lparr>prize := JStr ''Ice cream''\<rparr>\<rparr>) =
     masterChores (week_of [chore_row 3 1 True, chore_row 2 2 False] [trash_logged, trash_noted])"
proof -
  let ?d = "week_of [chore_row 3 1 True, chore_row 2 2 False] [trash_logged, trash_noted]"
  let ?p = "JObj [(''prize'', JStr ''Ice cream'')]"
  let ?d' = "(week_of [chore_row 3 1 False, chore_row 2 2 False] [])
          \<lparr>currentWeek := (currentWeek (week_of [chore_row 3 1 False, chore_row 2 2 False] []))
             \<lparr>prize := JStr ''Ice cream''\<rparr>\<rparr>"
  have run: "reset_week ?d ?p = Inr ?d'"
    by (simp add: sample_defs reset_week_def)
  have key: "has_key ?p ''prize''" by simp
  from reset_week_clears_week [of ?p ?d] run
  have "completedLog (currentWeek ?d') = []" and "masterChores ?d' = masterChores ?d"
    by blast+
  with run key show ?thesis by blast
qed

section \<open>\<^verbatim>\<open>add_chore\<close>\<close>

text \<open>
  C4. For a payload with \<^verbatim>\<open>id\<close>, \<^verbatim>\<open>name\<close>, \<^verbatim>\<open>points\<close> and \<^verbatim>\<open>type\<close>, on every document:
  the endpoint returns a document whose master chores are the old ones followed by
  the four fields of the payload, whatever the type; whose assigned chores are the old
  ones followed by the row of the payload's \<^verbatim>\<open>id\<close> and \<^verbatim>\<open>assignedUserId\<close>, not completed,
  when the type equals \<^verbatim>\<open>'weekly'\<close> and \<^verbatim>\<open>assignedUserId\<close> is there, and the old ones
  otherwise; and whose users, prize and log are unchanged. The same request once more
  succeeds and appends the same master chore and the same row a second time.
\<close>

theorem add_chore_appends:
  "\<forall>i n pts t. getitem p ''id'' = Inr i \<and> getitem p ''name'' = Inr n \<and>
      getitem p ''points'' = Inr pts \<and> getitem p ''type'' = Inr t \<longrightarrow>
    (\<exists>d' d''. add_chore d p = Inr d' \<and> add_chore d' p = Inr d'' \<and>
       masterChores d' = masterChores d @
         [JObj [(''id'', i), (''name'', n), (''points'', pts), (''type'', t)]] \<and>
       masterChores d'' = masterChores d @
         [JObj [(''id'', i), (''name'', n), (''points'', pts), (''type'', t)],
          JObj [(''id'', i), (''name'', n), (''points'', pts), (''type'', t)]] \<and>
       (\<forall>u. py_eq t (JStr ''weekly'') \<and> getitem p ''assignedUserId'' = Inr u \<longrightarrow>
          assignedChores (currentWeek d') = assignedChores (currentWeek d) @
            [JObj [(''choreId'', i), (''userId'', u), (''completed'', JBool False)]] \<and>
          assignedChores (currentWeek d'') = assignedChores (currentWeek d) @
            [JObj [(''choreId'', i), (''userId'', u), (''completed'', JBool False)],
             JObj [(''choreId'', i), (''userId'', u), (''completed'', JBool False)]]) \<and>
       (\<not> (py_eq t (JStr ''weekly'') \<and> has_key p ''assignedUserId'') \<longrightarrow>
          assignedChores (currentWeek d') = assignedChores (currentWeek d) \<and>
          assignedChores (currentWeek d'') = assignedChores (currentWeek d)) \<and>
       users d' = users d \<and>
       prize (currentWeek d') = prize (currentWeek d) \<and>
       completedLog (currentWeek d') = completedLog (currentWeek d))"
proof (intro allI impI)
  fix i n pts t
  assume a: "getitem p ''id'' = Inr i \<and> getitem p ''name'' = Inr n \<and>
      getitem p ''points'' = Inr pts \<and> getitem p ''type'' = Inr t"
  let ?m = "JObj [(''id'', i), (''name'', n), (''points'', pts), (''type'', t)]"
  note eval = add_chore_eval [of p i n pts t]
  show "\<exists>d' d''. add_chore d p = Inr d' \<and> add_chore d' p = Inr d'' \<and>
       masterChores d' = masterChores d @ [?m] \<and>
       masterChores d'' = masterChores d @ [?m, ?m] \<and>
       (\<forall>u. py_eq t (JStr ''weekly'') \<and> getitem p ''assignedUserId'' = Inr u \<longrightarrow>
          assignedChores (currentWeek d') = assignedChores (currentWeek d) @
            [JObj [(''choreId'', i), (''userId'', u), (''completed'', JBool False)]] \<and>
          assignedChores (currentWeek d'') = assignedChores (currentWeek d) @
            [JObj [(''choreId'', i), (''userId'', u), (''completed'', JBool False)],
             JObj [(''choreId'', i), (''userId'', u), (''completed'', JBool False)]]) \<and>
       (\<not> (py_eq t (JStr ''weekly'') \<and> has_key p ''assignedUserId'') \<longrightarrow>
          assignedChores (currentWeek d') = assignedChores (currentWeek d) \<and>
          assignedChores (currentWeek d'') = assignedChores (currentWeek d)) \<and>
       users d' = users d \<and>
       prize (currentWeek d') = prize (currentWeek d) \<and>
       completedLog (currentWeek d') = completedLog (currentWeek d)"
  proof (cases "py_eq t (JStr ''weekly'') \<and> has_key p ''assignedUserId''")
    case True
    then obtain u where u: "getitem p ''assignedUserId'' = Inr u"
      by (auto simp: has_key_iff)
    let ?row = "JObj [(''choreId'', i), (''userId'', u), (''completed'', JBool False)]"
    let ?d' = "d\<lparr>masterChores := masterChores d @ [?m],
                 currentWeek := (currentWeek d)
                   \<lparr>assignedChores := assignedChores (currentWeek d) @ [?row]\<rparr>\<rparr>"
    let ?d'' = "?d'\<lparr>masterChores := masterChores ?d' @ [?m],
                 currentWeek := (currentWeek ?d')
                   \<lparr>assignedChores := assignedChores (currentWeek ?d') @ [?row]\<rparr>\<rparr>"
    from a True u have 1: "add_chore d p = Inr ?d'" by (simp add: eval)
    from a True u have 2: "add_chore ?d' p = Inr ?d''" by (simp add: eval)
    show ?thesis
      by (rule exI [of _ ?d'], rule exI [of _ ?d'']) (use 1 2 True u in simp)
  next
    case False
    let ?d' = "d\<lparr>masterChores := masterChores d @ [?m]\<rparr>"
    let ?d'' = "?d'\<lparr>masterChores := masterChores ?d' @ [?m]\<rparr>"
    from a have e: "add_chore x p =
        (if py_eq t (JStr ''weekly'') \<and> has_key p ''assignedUserId''
         then bind_err (getitem p ''assignedUserId'') (\<lambda>u.
            Inr (x\<lparr>masterChores := masterChores x @ [?m],
                    currentWeek := (currentWeek x)
                      \<lparr>assignedChores := assignedChores (currentWeek x) @
                         [JObj [(''choreId'', i), (''userId'', u),
                                (''completed'', JBool False)]]\<rparr>\<rparr>))
         else Inr (x\<lparr>masterChores := masterChores x @ [?m]\<rparr>))" for x
      by (simp only: add_chore_eval)
    have 1: "add_chore d p = Inr ?d'" unfolding e if_not_P [OF False] ..
    have 2: "add_chore ?d' p = Inr ?d''" unfolding e if_not_P [OF False] ..
    show ?thesis
      by (rule exI [of _ ?d'], rule exI [of _ ?d''])
         (use 1 2 False in \<open>auto simp: has_key_iff\<close>)
  qed
qed

theorem add_chore_appends_witness:
  "add_chore default_data add_trash = Inr (week_of [chore_row 3 1 False] []) \<and>
   getitem add_trash ''type'' = Inr (JStr ''weekly'') \<and>
   getitem add_trash ''assignedUserId'' = Inr (JInt 1) \<and>
   (\<exists>d''. add_chore (week_of [chore_row 3 1 False] []) add_trash = Inr d'' \<and>
      masterChores d'' = masterChores default_data @ [trash_master, trash_master] \<and>
      assignedChores (currentWeek d'') = [chore_row 3 1 False, chore_row 3 1 False])"
proof -
  have keys: "getitem add_trash ''id'' = Inr (JInt 3) \<and>
      getitem add_trash ''name'' = Inr (JStr ''Take out trash'') \<and>
      getitem add_trash ''points'' = Inr (JInt 10) \<and>
      getitem add_trash ''type'' = Inr (JStr ''weekly'')"
    by (simp add: add_trash_def)
  have weekly: "py_eq (JStr ''weekly'') (JStr ''weekly'') \<and>
      getitem add_trash ''assignedUserId'' = Inr (JInt 1)"
    by (simp add: add_trash_def)
  have run: "add_chore default_data add_trash = Inr (week_of [chore_row 3 1 False] [])"
    by (simp add: sample_defs add_chore_def)
  from add_chore_appends [of add_trash default_data] keys weekly
  obtain d' d'' where "add_chore default_data add_trash = Inr d'"
    "add_chore d' add_trash = Inr d''"
    "masterChores d'' = masterChores default_data @
       [JObj [(''id'', JInt 3), (''name'', JStr ''Take out trash''), (''points'', JInt 10),
              (''type'', JStr ''weekly'')],
        JObj [(''id'', JInt 3), (''name'', JStr ''Take out trash''), (''points'', JInt 10),
              (''type'', JStr ''weekly'')]]"
    "assignedChores (currentWeek d'') = assignedChores (currentWeek default_data) @
       [JObj [(''choreId'', JInt 3), (''userId'', JInt 1), (''completed'', JBool False)],
        JObj [(''choreId'', JInt 3), (''userId'', JInt 1), (''completed'', JBool False)]]"
    by blast
  with run have "\<exists>d''. add_chore (week_of [chore_row 3 1 False] []) add_trash = Inr d'' \<and>
      masterChores d'' = masterChores default_data @ [trash_master, trash_master] \<and>
      assignedChores (currentWeek d'') = [chore_row 3 1 False, chore_row 3 1 False]"
    by (auto simp: trash_master_def chore_row_def default_data_def)
  with run keys weekly show ?thesis by blast
qed

end
